theory Spec2Isabelle
  imports Main
begin

section \<open>Strings, runes and errors\<close>

text \<open>
  A Go \<^verbatim>\<open>string\<close> is a sequence of bytes; it is modelled by \<^typ>\<open>string\<close>, whose
  characters are the 256 byte values. A \<^verbatim>\<open>rune\<close> (\<^verbatim>\<open>int32\<close>) is an integer. An
  \<^verbatim>\<open>error\<close> is identified with the message its \<^verbatim>\<open>Error()\<close> method returns;
  \<^verbatim>\<open>nil\<close> is \<^term>\<open>None\<close>.
\<close>

type_synonym rune = int
type_synonym error = string

definition errSyntax :: error where "errSyntax = ''syntax error''"
definition errLineTooLong :: error where "errLineTooLong = ''line too long''"
definition errReqNotSet :: error where "errReqNotSet = ''required but not set''"
definition errAlreadyDef :: error where "errAlreadyDef = ''already defined''"
definition errUnknownVar :: error where "errUnknownVar = ''unknown variable''"
definition errIllOpt :: error where "errIllOpt = ''illegal option''"
definition errNoArg :: error where "errNoArg = ''option requires an argument''"
definition errEndJunk :: error where "errEndJunk = ''junk at end of option''"
definition errAlreadySet :: error where "errAlreadySet = ''option already set''"

lemmas err_defs = errSyntax_def errLineTooLong_def errReqNotSet_def errAlreadyDef_def
  errUnknownVar_def errIllOpt_def errNoArg_def errEndJunk_def errAlreadySet_def

subsection \<open>The functions of \<^verbatim>\<open>unicode/utf8\<close> the package calls\<close>

text \<open>
  \<^verbatim>\<open>utf8.DecodeRuneInString\<close> returns the first rune of a string and its width in
  bytes: \<^verbatim>\<open>(RuneError, 0)\<close> on the empty string and \<^verbatim>\<open>(RuneError, 1)\<close> where the
  string does not start with a well-formed encoding. \<open>first\<close> is the table of lead
  bytes: the width of the encoding and the range accepted for the second byte.
\<close>

definition RuneError :: rune where "RuneError = 0xFFFD"

definition byte :: "char \<Rightarrow> nat" where "byte c = of_char c"

definition first :: "nat \<Rightarrow> (nat \<times> nat \<times> nat) option" where
  "first b0 =
     (if 0xC2 \<le> b0 \<and> b0 \<le> 0xDF then Some (2, 0x80, 0xBF)
      else if b0 = 0xE0 then Some (3, 0xA0, 0xBF)
      else if b0 = 0xED then Some (3, 0x80, 0x9F)
      else if 0xE1 \<le> b0 \<and> b0 \<le> 0xEF then Some (3, 0x80, 0xBF)
      else if b0 = 0xF0 then Some (4, 0x90, 0xBF)
      else if 0xF1 \<le> b0 \<and> b0 \<le> 0xF3 then Some (4, 0x80, 0xBF)
      else if b0 = 0xF4 then Some (4, 0x80, 0x8F)
      else None)"

definition cont :: "nat \<Rightarrow> bool" where
  "cont b = (0x80 \<le> b \<and> b \<le> 0xBF)"

definition DecodeRuneInString :: "string \<Rightarrow> rune \<times> nat" where
  "DecodeRuneInString s =
     (if s = [] then (RuneError, 0)
      else let s0 = byte (s ! 0) in
        if s0 < 0x80 then (int s0, 1)
        else case first s0 of
          None \<Rightarrow> (RuneError, 1)
        | Some (sz, lo, hi) \<Rightarrow>
            if length s < sz then (RuneError, 1)
            else let s1 = byte (s ! 1) in
              if s1 < lo \<or> hi < s1 then (RuneError, 1)
              else if sz \<le> 2 then (int ((s0 mod 32) * 64 + s1 mod 64), 2)
              else let s2 = byte (s ! 2) in
                if \<not> cont s2 then (RuneError, 1)
                else if sz \<le> 3
                  then (int ((s0 mod 16) * 4096 + (s1 mod 64) * 64 + s2 mod 64), 3)
                else let s3 = byte (s ! 3) in
                  if \<not> cont s3 then (RuneError, 1)
                  else (int ((s0 mod 8) * 262144 + (s1 mod 64) * 4096
                              + (s2 mod 64) * 64 + s3 mod 64), 4))"

text \<open>
  \<^verbatim>\<open>string(r)\<close> for a rune \<open>r\<close> is its UTF-8 encoding, and the encoding of
  \<^verbatim>\<open>RuneError\<close> for a value that is no Unicode scalar value.
\<close>

definition ValidRune :: "rune \<Rightarrow> bool" where
  "ValidRune r = ((0 \<le> r \<and> r < 0xD800) \<or> (0xDFFF < r \<and> r \<le> 0x10FFFF))"

definition EncodeRune :: "rune \<Rightarrow> string" where
  "EncodeRune r0 =
     (let r = nat (if ValidRune r0 then r0 else RuneError) in
      if r < 0x80 then [char_of r]
      else if r < 0x800 then [char_of (0xC0 + r div 64), char_of (0x80 + r mod 64)]
      else if r < 0x10000
        then [char_of (0xE0 + r div 4096), char_of (0x80 + r div 64 mod 64),
              char_of (0x80 + r mod 64)]
      else [char_of (0xF0 + r div 262144), char_of (0x80 + r div 4096 mod 64),
            char_of (0x80 + r div 64 mod 64), char_of (0x80 + r mod 64)])"

section \<open>The registry\<close>

text \<open>
  A \<^verbatim>\<open>Value\<close> is an interface with the one method \<^verbatim>\<open>Set(string) error\<close>, which
  stores into a variable of the caller. The caller's variables are a state of an
  arbitrary type \<open>'st\<close>, and a \<^verbatim>\<open>Value\<close> is its setter: a function from the
  parameter and the state to the error (or \<^verbatim>\<open>nil\<close>) and the state after the call.
  Setters act on the caller's variables only.
\<close>

type_synonym 'st Value = "string \<Rightarrow> 'st \<Rightarrow> error option \<times> 'st"

definition HasArg :: int where "HasArg = 0"
definition NoArg :: int where "NoArg = 1"
definition LineArg :: int where "LineArg = 2"

record 'st Var =
  Flag :: rune
  Name :: string
  Val :: "'st Value"
  Kind :: int
  Required :: bool
  set_file :: bool
  flagSet :: bool

text \<open>
  \<open>set_file\<close> is the field \<^verbatim>\<open>set\<close> ("has been set from conf file"). Both parsers
  write their markers into the caller's slice of \<^verbatim>\<open>Var\<close>; the command line parser
  leaves the remaining arguments in the package variable \<^verbatim>\<open>Args\<close>. The state
  the package works on is therefore the registry, \<^verbatim>\<open>Args\<close> and the caller's
  variables.
\<close>

record 'st world =
  vars :: "'st Var list"
  Args :: "string list"
  store :: 'st

text \<open>The loop \<^verbatim>\<open>for i := range vars { if eq(i) { return &vars[i] } }; return nil\<close>.\<close>

fun findIndex :: "('a \<Rightarrow> bool) \<Rightarrow> 'a list \<Rightarrow> nat option" where
  "findIndex eq [] = None"
| "findIndex eq (x # xs) = (if eq x then Some 0 else map_option Suc (findIndex eq xs))"

section \<open>Command line parsing (getopt.go)\<close>

datatype flavour = short | xLong | gnuLong

datatype argkind = shortFlag | longFlag | gnuLongFlag | falseFlag | endArg | endArgSkip

datatype FlagError = FlagError rune string error


definition newError :: "rune \<Rightarrow> string \<Rightarrow> error \<Rightarrow> FlagError" where
  "newError f v e = FlagError f v e"

definition nextArg :: "string \<Rightarrow> flavour \<Rightarrow> argkind \<times> string" where
  "nextArg arg flavour =
     (if length arg \<le> 1 then (endArg, [])
      else if arg ! 0 = CHR ''-'' then
        (if arg ! 1 = CHR ''-'' \<and> length arg = 2 then (endArgSkip, [])
         else if arg ! 1 = CHR ''-'' \<and> flavour = gnuLong then (gnuLongFlag, drop 2 arg)
         else if flavour = xLong then (longFlag, drop 1 arg)
         else (shortFlag, drop 1 arg))
      else if arg ! 0 = CHR ''+'' \<and> flavour = xLong then (falseFlag, drop 1 arg)
      else (endArg, []))"

text \<open>\<^verbatim>\<open>strings.Index(this, "=")\<close>, with \<open>None\<close> for \<^verbatim>\<open>-1\<close>.\<close>

definition Index :: "string \<Rightarrow> char \<Rightarrow> nat option" where
  "Index s c = findIndex (\<lambda>x. x = c) s"

definition nextFlag :: "string \<Rightarrow> argkind \<Rightarrow> rune \<times> string \<times> string" where
  "nextFlag this kind =
     (if kind = shortFlag then
        (let (flag, size) = DecodeRuneInString this in (flag, [], drop size this))
      else if kind = gnuLongFlag then
        (case Index this CHR ''='' of
           Some pos \<Rightarrow> (0x3D, take pos this, drop (pos + 1) this)
         | None \<Rightarrow> (0, this, []))
      else (0, this, []))"

definition findFlag :: "rune \<Rightarrow> string \<Rightarrow> argkind \<Rightarrow> 'st Var list \<Rightarrow> nat option" where
  "findFlag flag long kind vs =
     (if kind = shortFlag then findIndex (\<lambda>v. Flag v = flag) vs
      else findIndex (\<lambda>v. Name v = long) vs)"

text \<open>
  The body of the inner loop of \<^verbatim>\<open>doGetOpt\<close>, for one flag of the cluster, in
  three parts. \<open>doGetOpt_switch\<close> is the \<^verbatim>\<open>switch\<close>: it chooses the parameter
  \<open>p\<close> of the setter and what remains of the cluster and of \<^verbatim>\<open>Args\<close>, or returns
  an error. \<open>doGetOpt_set\<close> calls the setter and marks the \<^verbatim>\<open>Var\<close>.
  \<open>doGetOpt_body\<close> is the whole body: \<open>Inl\<close> leaves the loop, with an error
  (\<^verbatim>\<open>return\<close>) or, after a \<^verbatim>\<open>LineArg\<close>, without one (\<^verbatim>\<open>break\<close>); \<open>Inr\<close>
  goes round again with the rest of the cluster.
\<close>

definition doGetOpt_switch ::
  "argkind \<Rightarrow> rune \<Rightarrow> string \<Rightarrow> string \<Rightarrow> int \<Rightarrow> string list
     \<Rightarrow> FlagError + (string \<times> string \<times> string list)" where
  "doGetOpt_switch kind flag long this vKind args =
     (if kind = falseFlag then
        (if vKind \<noteq> NoArg then Inl (newError flag long errIllOpt)
         else Inr (''false'', this, args))
      else if vKind = NoArg then
        (if kind = gnuLongFlag \<and> flag = 0x3D then Inl (newError 0 this errEndJunk)
         else Inr (''true'', this, args))
      else if vKind = LineArg then
        (if this \<noteq> [] then Inl (newError 0 this errEndJunk)
         else Inr ([], this, args))
      else if this \<noteq> [] then Inr (this, [], args)
      else if kind = gnuLongFlag \<and> flag = 0x3D then Inr ([], this, args)
      else if args \<noteq> [] then Inr (hd args, this, tl args)
      else Inl (newError flag [] errNoArg))"

definition doGetOpt_set ::
  "nat \<Rightarrow> rune \<Rightarrow> string \<Rightarrow> string \<Rightarrow> string list \<Rightarrow> 'st world
     \<Rightarrow> (FlagError option \<times> 'st world) + (string \<times> 'st world)" where
  "doGetOpt_set i flag p this args w =
     (let v = vars w ! i in
      case Val v p (store w) of
        (Some err, st') \<Rightarrow> Inl (Some (newError flag p err), w\<lparr>Args := args, store := st'\<rparr>)
      | (None, st') \<Rightarrow>
          let w' = w\<lparr>vars := (vars w)[i := v\<lparr>flagSet := True\<rparr>], Args := args, store := st'\<rparr>
          in if Kind v = LineArg then Inl (None, w') else Inr (this, w'))"

definition doGetOpt_body ::
  "argkind \<Rightarrow> string \<Rightarrow> 'st world \<Rightarrow> (FlagError option \<times> 'st world) + (string \<times> 'st world)" where
  "doGetOpt_body kind this0 w =
     (let (flag, long, this) = nextFlag this0 kind in
      if flag = RuneError then Inl (Some (newError flag long errSyntax), w)
      else case findFlag flag long kind (vars w) of
        None \<Rightarrow> Inl (Some (newError flag long errIllOpt), w)
      | Some i \<Rightarrow>
          (case doGetOpt_switch kind flag long this (Kind (vars w ! i)) (Args w) of
             Inl e \<Rightarrow> Inl (Some e, w)
           | Inr (p, this', args') \<Rightarrow> doGetOpt_set i flag p this' args' w))"

lemma DecodeRuneInString_size:
  "s \<noteq> [] \<Longrightarrow> 1 \<le> snd (DecodeRuneInString s)"
  by (auto simp: DecodeRuneInString_def Let_def split: option.splits)

lemma nextFlag_shorter:
  assumes "this0 \<noteq> []" and "nextFlag this0 kind = (flag, long, this)"
  shows "length this < length this0"
proof (cases "kind = shortFlag")
  case True
  obtain r n where d: "DecodeRuneInString this0 = (r, n)"
    by (cases "DecodeRuneInString this0")
  with DecodeRuneInString_size [OF assms(1)] have "1 \<le> n" by simp
  with assms True d show ?thesis by (auto simp: nextFlag_def)
next
  case False
  with assms show ?thesis
    by (auto simp: nextFlag_def split: if_splits option.splits)
qed

lemma doGetOpt_body_shorter:
  assumes "this0 \<noteq> []" and "doGetOpt_body kind this0 w = Inr (this', w')"
  shows "length this' < length this0"
proof -
  obtain flag long this where nf: "nextFlag this0 kind = (flag, long, this)"
    by (cases "nextFlag this0 kind")
  from nextFlag_shorter [OF assms(1) nf] have lt: "length this < length this0" .
  from assms(2) nf have "this' = this \<or> this' = []"
    by (auto simp: doGetOpt_body_def doGetOpt_switch_def doGetOpt_set_def Let_def
        split: if_splits option.splits sum.splits prod.splits)
  with lt assms(1) show ?thesis by auto
qed

text \<open>The inner loop \<^verbatim>\<open>for len(this) > 0\<close>.\<close>

function flagLoop :: "argkind \<Rightarrow> string \<Rightarrow> 'st world \<Rightarrow> FlagError option \<times> 'st world" where
  "flagLoop kind this w =
     (if this = [] then (None, w)
      else case doGetOpt_body kind this w of
        Inl r \<Rightarrow> r
      | Inr (this', w') \<Rightarrow> flagLoop kind this' w')"
  by pat_completeness auto
termination flagLoop
  by (relation "measure (\<lambda>(kind, this, w). length this)")
     (auto dest: doGetOpt_body_shorter)

lemma doGetOpt_body_Args:
  "doGetOpt_body kind this0 w = Inl (r, w') \<or> doGetOpt_body kind this0 w = Inr (t, w')
   \<Longrightarrow> length (Args w') \<le> length (Args w)"
  by (auto simp: doGetOpt_body_def doGetOpt_switch_def doGetOpt_set_def Let_def
      split: if_splits option.splits sum.splits prod.splits)

lemma flagLoop_Args:
  "flagLoop kind this w = (r, w') \<Longrightarrow> length (Args w') \<le> length (Args w)"
proof (induction kind this w rule: flagLoop.induct)
  case (1 kind this w)
  show ?case
  proof (cases "this = []")
    case True
    with "1.prems" show ?thesis by simp
  next
    case False
    show ?thesis
    proof (cases "doGetOpt_body kind this w")
      case (Inl x)
      with False "1.prems" have "doGetOpt_body kind this w = Inl (r, w')" by simp
      then show ?thesis using doGetOpt_body_Args by blast
    next
      case (Inr y)
      obtain t w1 where y: "y = (t, w1)" by (cases y)
      with Inr False "1.prems" have "flagLoop kind t w1 = (r, w')" by simp
      with "1.IH" [OF False Inr y [symmetric]] have "length (Args w') \<le> length (Args w1)"
        by simp
      moreover from Inr y have "length (Args w1) \<le> length (Args w)"
        using doGetOpt_body_Args by blast
      ultimately show ?thesis by simp
    qed
  qed
qed

text \<open>
  The outer loop \<^verbatim>\<open>for len(Args) > 0\<close> over the arguments, and \<^verbatim>\<open>doGetOpt\<close>
  itself. \<open>argv\<close> is \<^verbatim>\<open>os.Args[1:]\<close>, which \<^verbatim>\<open>doGetOpt\<close> copies into
  \<^verbatim>\<open>Args\<close>. The result is the error returned (or \<^verbatim>\<open>nil\<close>), and the state left
  behind: the registry with its markers, \<^verbatim>\<open>Args\<close>, and the caller's variables.
\<close>

function argLoop :: "flavour \<Rightarrow> 'st world \<Rightarrow> FlagError option \<times> 'st world" where
  "argLoop flavour w =
     (if Args w = [] then (None, w)
      else let (kind, this) = nextArg (hd (Args w)) flavour in
        if kind = endArg then (None, w)
        else let w1 = w\<lparr>Args := tl (Args w)\<rparr> in
          if kind = endArgSkip then (None, w1)
          else case flagLoop kind this w1 of
            (Some e, w2) \<Rightarrow> (Some e, w2)
          | (None, w2) \<Rightarrow> argLoop flavour w2)"
  by pat_completeness auto
termination argLoop
proof (relation "measure (\<lambda>(flavour, w). length (Args w))", goal_cases)
  case 1
  show ?case by simp
next
  case (2 flavour w x kind this w1 r w2)
  from flagLoop_Args [of kind this w1 None w2] 2 have "length (Args w2) \<le> length (Args w1)"
    by simp
  with 2 show ?case by (cases "Args w") auto
qed

definition doGetOpt ::
  "'st Var list \<Rightarrow> flavour \<Rightarrow> string list \<Rightarrow> 'st \<Rightarrow> FlagError option \<times> 'st world" where
  "doGetOpt vs flavour argv st = argLoop flavour \<lparr>vars = vs, Args = argv, store = st\<rparr>"


definition GetOptLong :: "'st Var list \<Rightarrow> string list \<Rightarrow> 'st \<Rightarrow> FlagError option \<times> 'st world" where
  "GetOptLong vs argv st = doGetOpt vs gnuLong argv st"

definition GetOptLongOnly :: "'st Var list \<Rightarrow> string list \<Rightarrow> 'st \<Rightarrow> FlagError option \<times> 'st world" where
  "GetOptLongOnly vs argv st = doGetOpt vs xLong argv st"


subsection \<open>The listing with the \<^verbatim>\<open>Long\<close> field and the "already set" check\<close>

text \<open>
  The repository holds a second listing of getopt.go, in which \<^verbatim>\<open>FlagError\<close> has
  the fields \<^verbatim>\<open>Flag\<close>, \<^verbatim>\<open>Long\<close>, \<^verbatim>\<open>Value\<close> and \<^verbatim>\<open>Err\<close>, and
  \<^verbatim>\<open>doGetOpt\<close> returns \<^verbatim>\<open>errAlreadySet\<close> for a \<^verbatim>\<open>Var\<close> whose \<^verbatim>\<open>flagSet\<close> is
  set. \<^verbatim>\<open>nextArg\<close>, \<^verbatim>\<open>nextFlag\<close> and \<^verbatim>\<open>findFlag\<close> are the same in both. The
  definitions of this listing carry the suffix \<open>L\<close>.
\<close>

datatype FlagErrorL = FlagErrorL rune string string error


definition newErrorL :: "rune \<Rightarrow> string \<Rightarrow> string \<Rightarrow> error \<Rightarrow> FlagErrorL" where
  "newErrorL f l v e = FlagErrorL f l v e"

definition doGetOptL_switch ::
  "argkind \<Rightarrow> rune \<Rightarrow> string \<Rightarrow> string \<Rightarrow> int \<Rightarrow> string list
     \<Rightarrow> FlagErrorL + (string \<times> string \<times> string list)" where
  "doGetOptL_switch kind flag long this vKind args =
     (if kind = falseFlag then
        (if vKind \<noteq> NoArg then Inl (newErrorL flag long [] errIllOpt)
         else Inr (''false'', this, args))
      else if vKind = NoArg then
        (if kind = gnuLongFlag \<and> flag = 0x3D then Inl (newErrorL 0 long [] errEndJunk)
         else Inr (''true'', this, args))
      else if vKind = LineArg then
        (if this \<noteq> [] then Inl (newErrorL 0 [] this errEndJunk)
         else Inr ([], this, args))
      else if this \<noteq> [] then Inr (this, [], args)
      else if kind = gnuLongFlag \<and> flag = 0x3D then Inr ([], this, args)
      else if args \<noteq> [] then Inr (hd args, this, tl args)
      else Inl (newErrorL flag long [] errNoArg))"

definition doGetOptL_set ::
  "nat \<Rightarrow> rune \<Rightarrow> string \<Rightarrow> string \<Rightarrow> string \<Rightarrow> string list \<Rightarrow> 'st world
     \<Rightarrow> (FlagErrorL option \<times> 'st world) + (string \<times> 'st world)" where
  "doGetOptL_set i flag long p this args w =
     (let v = vars w ! i in
      case Val v p (store w) of
        (Some err, st') \<Rightarrow>
          Inl (Some (newErrorL flag long (if Kind v = NoArg then [] else p) err),
               w\<lparr>Args := args, store := st'\<rparr>)
      | (None, st') \<Rightarrow>
          let w' = w\<lparr>vars := (vars w)[i := v\<lparr>flagSet := True\<rparr>], Args := args, store := st'\<rparr>
          in if Kind v = LineArg then Inl (None, w') else Inr (this, w'))"

definition doGetOptL_body ::
  "argkind \<Rightarrow> string \<Rightarrow> 'st world \<Rightarrow> (FlagErrorL option \<times> 'st world) + (string \<times> 'st world)" where
  "doGetOptL_body kind this0 w =
     (let (flag, long, this) = nextFlag this0 kind in
      if flag = RuneError then Inl (Some (newErrorL flag long [] errSyntax), w)
      else case findFlag flag long kind (vars w) of
        None \<Rightarrow> Inl (Some (newErrorL flag long [] errIllOpt), w)
      | Some i \<Rightarrow>
          if flagSet (vars w ! i) then Inl (Some (newErrorL flag long [] errAlreadySet), w)
          else
            (case doGetOptL_switch kind flag long this (Kind (vars w ! i)) (Args w) of
               Inl e \<Rightarrow> Inl (Some e, w)
             | Inr (p, this', args') \<Rightarrow> doGetOptL_set i flag long p this' args' w))"

lemma doGetOptL_body_shorter:
  assumes "this0 \<noteq> []" and "doGetOptL_body kind this0 w = Inr (this', w')"
  shows "length this' < length this0"
proof -
  obtain flag long this where nf: "nextFlag this0 kind = (flag, long, this)"
    by (cases "nextFlag this0 kind")
  from nextFlag_shorter [OF assms(1) nf] have lt: "length this < length this0" .
  from assms(2) nf have "this' = this \<or> this' = []"
    by (auto simp: doGetOptL_body_def doGetOptL_switch_def doGetOptL_set_def Let_def
        split: if_splits option.splits sum.splits prod.splits)
  with lt assms(1) show ?thesis by auto
qed

function flagLoopL :: "argkind \<Rightarrow> string \<Rightarrow> 'st world \<Rightarrow> FlagErrorL option \<times> 'st world" where
  "flagLoopL kind this w =
     (if this = [] then (None, w)
      else case doGetOptL_body kind this w of
        Inl r \<Rightarrow> r
      | Inr (this', w') \<Rightarrow> flagLoopL kind this' w')"
  by pat_completeness auto
termination flagLoopL
  by (relation "measure (\<lambda>(kind, this, w). length this)")
     (auto dest: doGetOptL_body_shorter)

lemma doGetOptL_body_Args:
  "doGetOptL_body kind this0 w = Inl (r, w') \<or> doGetOptL_body kind this0 w = Inr (t, w')
   \<Longrightarrow> length (Args w') \<le> length (Args w)"
  by (auto simp: doGetOptL_body_def doGetOptL_switch_def doGetOptL_set_def Let_def
      split: if_splits option.splits sum.splits prod.splits)

lemma flagLoopL_Args:
  "flagLoopL kind this w = (r, w') \<Longrightarrow> length (Args w') \<le> length (Args w)"
proof (induction kind this w rule: flagLoopL.induct)
  case (1 kind this w)
  show ?case
  proof (cases "this = []")
    case True
    with "1.prems" show ?thesis by simp
  next
    case False
    show ?thesis
    proof (cases "doGetOptL_body kind this w")
      case (Inl x)
      with False "1.prems" have "doGetOptL_body kind this w = Inl (r, w')" by simp
      then show ?thesis using doGetOptL_body_Args by blast
    next
      case (Inr y)
      obtain t w1 where y: "y = (t, w1)" by (cases y)
      with Inr False "1.prems" have "flagLoopL kind t w1 = (r, w')" by simp
      with "1.IH" [OF False Inr y [symmetric]] have "length (Args w') \<le> length (Args w1)"
        by simp
      moreover from Inr y have "length (Args w1) \<le> length (Args w)"
        using doGetOptL_body_Args by blast
      ultimately show ?thesis by simp
    qed
  qed
qed

function argLoopL :: "flavour \<Rightarrow> 'st world \<Rightarrow> FlagErrorL option \<times> 'st world" where
  "argLoopL flavour w =
     (if Args w = [] then (None, w)
      else let (kind, this) = nextArg (hd (Args w)) flavour in
        if kind = endArg then (None, w)
        else let w1 = w\<lparr>Args := tl (Args w)\<rparr> in
          if kind = endArgSkip then (None, w1)
          else case flagLoopL kind this w1 of
            (Some e, w2) \<Rightarrow> (Some e, w2)
          | (None, w2) \<Rightarrow> argLoopL flavour w2)"
  by pat_completeness auto
termination argLoopL
proof (relation "measure (\<lambda>(flavour, w). length (Args w))", goal_cases)
  case 1
  show ?case by simp
next
  case (2 flavour w x kind this w1 r w2)
  from flagLoopL_Args [of kind this w1 None w2] 2 have "length (Args w2) \<le> length (Args w1)"
    by simp
  with 2 show ?case by (cases "Args w") auto
qed

definition doGetOptL ::
  "'st Var list \<Rightarrow> flavour \<Rightarrow> string list \<Rightarrow> 'st \<Rightarrow> FlagErrorL option \<times> 'st world" where
  "doGetOptL vs flavour argv st = argLoopL flavour \<lparr>vars = vs, Args = argv, store = st\<rparr>"

declare flagLoop.simps [simp del] argLoop.simps [simp del]
declare flagLoopL.simps [simp del] argLoopL.simps [simp del]

subsection \<open>Values\<close>

text \<open>
  \<^verbatim>\<open>StringValue\<close> stores its parameter as it is and never fails; the variable the
  pointer receiver points to is given by its update function. \<^verbatim>\<open>FuncValue(f)\<close> is
  the \<^verbatim>\<open>Value\<close> whose \<^verbatim>\<open>Set\<close> method is \<open>f\<close>.
\<close>

definition StringValue :: "(string \<Rightarrow> 'st \<Rightarrow> 'st) \<Rightarrow> 'st Value" where
  "StringValue upd s st = (None, upd s st)"

definition FuncValue :: "(string \<Rightarrow> 'st \<Rightarrow> error option \<times> 'st) \<Rightarrow> 'st Value" where
  "FuncValue f = f"


section \<open>Configuration file parsing (conf.go)\<close>

subsection \<open>Unicode classes and the tokens\<close>

text \<open>
  The tables of Go's \<^verbatim>\<open>unicode\<close> package are not part of the repository and
  change with the Unicode version, so they are a parameter: \<open>IsSpace\<close> is
  \<^verbatim>\<open>unicode.IsSpace\<close>, \<open>pZ\<close> and \<open>pC\<close> are the classes \<^verbatim>\<open>\pZ\<close> and \<^verbatim>\<open>\pC\<close>
  of the regular expressions.
\<close>

record unicode =
  IsSpace :: "rune \<Rightarrow> bool"
  pZ :: "rune \<Rightarrow> bool"
  pC :: "rune \<Rightarrow> bool"

text \<open>
  Go's regular expressions and \<^verbatim>\<open>strings.TrimLeftFunc\<close> read a string rune by
  rune, as \<^verbatim>\<open>utf8.DecodeRuneInString\<close> decodes it: every byte of an ill-formed
  encoding is a \<^verbatim>\<open>RuneError\<close> of width 1. \<open>runes s\<close> is the list of the runes of
  \<open>s\<close>, each with the bytes that encode it.
\<close>

function runes :: "string \<Rightarrow> (rune \<times> string) list" where
  "runes s =
     (if s = [] then []
      else let (r, n) = DecodeRuneInString s in (r, take n s) # runes (drop n s))"
  by pat_completeness auto
termination runes
proof (relation "measure length", goal_cases)
  case 1
  show ?case by simp
next
  case (2 s x r n)
  then have "snd (DecodeRuneInString s) = n" by (metis snd_conv)
  with DecodeRuneInString_size [of s] 2 show ?case by simp
qed

declare runes.simps [simp del]

definition eatSpace :: "unicode \<Rightarrow> string \<Rightarrow> string" where
  "eatSpace U s = concat (map snd (dropWhile (\<lambda>(r, b). IsSpace U r) (runes s)))"

text \<open>\<^verbatim>\<open>identRE = ^[-_a-zA-Z][-_a-zA-Z0-9]*\<close> (\<^verbatim>\<open>FindString\<close>; no match is the empty string).\<close>

definition ident_alpha :: "char \<Rightarrow> bool" where
  "ident_alpha c =
     (c = CHR ''-'' \<or> c = CHR ''_'' \<or> (0x61 \<le> byte c \<and> byte c \<le> 0x7A)
      \<or> (0x41 \<le> byte c \<and> byte c \<le> 0x5A))"

definition ident_alnum :: "char \<Rightarrow> bool" where
  "ident_alnum c = (ident_alpha c \<or> (0x30 \<le> byte c \<and> byte c \<le> 0x39))"

definition identRE :: "string \<Rightarrow> string" where
  "identRE s =
     (case s of
        [] \<Rightarrow> []
      | c # cs \<Rightarrow> if ident_alpha c then c # takeWhile ident_alnum cs else [])"

text \<open>\<^verbatim>\<open>plainRE = ^[^\pZ\pC"#'=\\]+\<close>: the longest run of runes of the class.\<close>

definition ptext :: "unicode \<Rightarrow> rune \<Rightarrow> bool" where
  "ptext U r =
     (\<not> pZ U r \<and> \<not> pC U r \<and> r \<noteq> 0x22 \<and> r \<noteq> 0x23 \<and> r \<noteq> 0x27 \<and> r \<noteq> 0x3D \<and> r \<noteq> 0x5C)"

definition plainRE :: "unicode \<Rightarrow> string \<Rightarrow> string" where
  "plainRE U s = concat (map snd (takeWhile (\<lambda>(r, b). ptext U r) (runes s)))"

text \<open>
  \<^verbatim>\<open>quotedRE = ^"(?:[^\pC"\\]|\\[^\pC])*"\<close>. After the opening quote the next rune
  decides how the match goes on: a quote ends it, a backslash takes the rune after it
  (which must not be in \<^verbatim>\<open>\pC\<close>), any other rune outside \<^verbatim>\<open>\pC\<close> stands for itself,
  and anything else (also the end of the string) leaves no match. \<open>quoted_tail\<close> is
  the text matched after the opening quote.
\<close>

fun quoted_tail :: "unicode \<Rightarrow> (rune \<times> string) list \<Rightarrow> string option" where
  "quoted_tail U [] = None"
| "quoted_tail U ((r, b) # rs) =
     (if r = 0x22 then Some b
      else if r = 0x5C then
        (case rs of
           [] \<Rightarrow> None
         | (r', b') # rs' \<Rightarrow>
             if pC U r' then None else map_option (\<lambda>m. b @ b' @ m) (quoted_tail U rs'))
      else if pC U r then None
      else map_option (\<lambda>m. b @ m) (quoted_tail U rs))"

definition quotedRE :: "unicode \<Rightarrow> string \<Rightarrow> string" where
  "quotedRE U s =
     (case runes s of
        [] \<Rightarrow> []
      | (r, b) # rs \<Rightarrow>
          if r = 0x22 then (case quoted_tail U rs of Some m \<Rightarrow> b @ m | None \<Rightarrow> []) else [])"

subsection \<open>\<^verbatim>\<open>strconv.Unquote\<close>\<close>

text \<open>
  \<^verbatim>\<open>strconv.Unquote\<close> belongs to Go's library. It is modelled on the strings
  \<^verbatim>\<open>parseLine\<close> passes to it: the empty string, or a match of \<^verbatim>\<open>quotedRE\<close>, which
  starts with a double quote. Single-quoted and back-quoted literals are outside the
  model (\<open>None\<close>, like every error). \<open>UnquoteChar\<close> is \<^verbatim>\<open>strconv.UnquoteChar\<close> with
  the quote \<^verbatim>\<open>'"'\<close>: the value, whether it is a multibyte rune, and the rest. The value
  of \<^verbatim>\<open>\U\<close> with eight digits is an \<^verbatim>\<open>int32\<close> in Go, negative from \<^verbatim>\<open>80000000\<close>
  on; such a value is no valid rune either way.
\<close>

definition unhex :: "char \<Rightarrow> nat option" where
  "unhex c =
     (if 0x30 \<le> byte c \<and> byte c \<le> 0x39 then Some (byte c - 0x30)
      else if 0x61 \<le> byte c \<and> byte c \<le> 0x66 then Some (byte c - 0x61 + 10)
      else if 0x41 \<le> byte c \<and> byte c \<le> 0x46 then Some (byte c - 0x41 + 10)
      else None)"

fun hexval :: "nat \<Rightarrow> string \<Rightarrow> nat option" where
  "hexval v [] = Some v"
| "hexval v (c # cs) = (case unhex c of None \<Rightarrow> None | Some x \<Rightarrow> hexval (v * 16 + x) cs)"

definition octal :: "char \<Rightarrow> nat option" where
  "octal c = (if 0x30 \<le> byte c \<and> byte c \<le> 0x37 then Some (byte c - 0x30) else None)"

definition UnquoteChar :: "string \<Rightarrow> (rune \<times> bool \<times> string) option" where
  "UnquoteChar s =
     (case s of
        [] \<Rightarrow> None
      | c # t \<Rightarrow>
          if c = CHR 0x22 then None
          else if 0x80 \<le> byte c then
            (let (r, size) = DecodeRuneInString s in Some (r, True, drop size s))
          else if c \<noteq> CHR 0x5C then Some (int (byte c), False, t)
          else
            (case t of
               [] \<Rightarrow> None
             | c1 # s' \<Rightarrow>
                 if c1 = CHR ''a'' then Some (7, False, s')
                 else if c1 = CHR ''b'' then Some (8, False, s')
                 else if c1 = CHR ''f'' then Some (12, False, s')
                 else if c1 = CHR ''n'' then Some (10, False, s')
                 else if c1 = CHR ''r'' then Some (13, False, s')
                 else if c1 = CHR ''t'' then Some (9, False, s')
                 else if c1 = CHR ''v'' then Some (11, False, s')
                 else if c1 = CHR ''x'' \<or> c1 = CHR ''u'' \<or> c1 = CHR ''U'' then
                   (let n = (if c1 = CHR ''x'' then 2 else if c1 = CHR ''u'' then 4 else 8) in
                    if length s' < n then None
                    else case hexval 0 (take n s') of
                      None \<Rightarrow> None
                    | Some v \<Rightarrow>
                        if c1 = CHR ''x'' then Some (int v, False, drop n s')
                        else if \<not> ValidRune (int v) then None
                        else Some (int v, True, drop n s'))
                 else if 0x30 \<le> byte c1 \<and> byte c1 \<le> 0x37 then
                   (if length s' < 2 then None
                    else case (octal (s' ! 0), octal (s' ! 1)) of
                      (Some x1, Some x2) \<Rightarrow>
                        (let v = ((byte c1 - 0x30) * 8 + x1) * 8 + x2 in
                         if 255 < v then None else Some (int v, False, drop 2 s'))
                    | _ \<Rightarrow> None)
                 else if c1 = CHR 0x5C then Some (0x5C, False, s')
                 else if c1 = CHR 0x22 then Some (0x22, False, s')
                 else None))"

lemma UnquoteChar_shorter:
  assumes "UnquoteChar s = Some (r, m, t)"
  shows "length t < length s"
proof (cases s)
  case Nil
  with assms show ?thesis by (simp add: UnquoteChar_def)
next
  case (Cons c s1)
  show ?thesis
  proof (cases "0x80 \<le> byte c \<and> c \<noteq> CHR 0x22")
    case True
    obtain r' n where d: "DecodeRuneInString s = (r', n)"
      by (cases "DecodeRuneInString s")
    with DecodeRuneInString_size [of s] Cons have "1 \<le> n" by simp
    with assms Cons True d show ?thesis
      by (auto simp: UnquoteChar_def)
  next
    case False
    with assms Cons show ?thesis
      by (auto simp: UnquoteChar_def Let_def
          split: if_splits list.splits option.splits prod.splits)
  qed
qed

text \<open>
  The loop of \<^verbatim>\<open>Unquote\<close> over the text after the opening quote, up to the closing
  one: the bytes decoded so far are \<open>buf\<close>; the result is \<open>buf\<close> and what follows the
  closing quote.
\<close>

function unquote_loop :: "string \<Rightarrow> string \<Rightarrow> (string \<times> string) option" where
  "unquote_loop inp buf =
     (if inp \<noteq> [] \<and> hd inp \<noteq> CHR 0x22 then
        (case UnquoteChar inp of
           None \<Rightarrow> None
         | Some (r, multibyte, rem) \<Rightarrow>
             if hd inp = CHR 0x0A then None
             else unquote_loop rem
               (buf @ (if r < 0x80 \<or> \<not> multibyte then [char_of (nat r)] else EncodeRune r)))
      else if inp \<noteq> [] then Some (buf, tl inp)
      else None)"
  by pat_completeness auto
termination unquote_loop
  by (relation "measure (\<lambda>(inp, buf). length inp)") (auto dest: UnquoteChar_shorter)

declare unquote_loop.simps [simp del]

definition Unquote :: "string \<Rightarrow> string option" where
  "Unquote s =
     (if length s < 2 then None
      else if hd s \<noteq> CHR 0x22 then None
      else case Index (tl s) (CHR 0x22) of
        None \<Rightarrow> None
      | Some end \<Rightarrow>
          (case unquote_loop (tl s) [] of
             None \<Rightarrow> None
           | Some (out, rem) \<Rightarrow> if rem \<noteq> [] then None else Some out))"

subsection \<open>The parser\<close>

text \<open>
  The fields \<^verbatim>\<open>file\<close>, \<^verbatim>\<open>line\<close>, \<^verbatim>\<open>ident\<close> and \<^verbatim>\<open>value\<close> of \<^verbatim>\<open>parser\<close>
  (\<open>file_name\<close> is \<^verbatim>\<open>file\<close> and \<open>value_raw\<close> is \<^verbatim>\<open>value\<close>, the value as
  it appears in the input). Its field
  \<^verbatim>\<open>vars\<close> is the caller's slice, the registry of the state. The fields of
  \<^verbatim>\<open>ParseError\<close> are \<^verbatim>\<open>File\<close>, \<^verbatim>\<open>Line\<close>, \<^verbatim>\<open>Ident\<close>, \<^verbatim>\<open>Value\<close> and \<^verbatim>\<open>Err\<close>.
\<close>

record parser =
  file_name :: string
  line :: int
  ident :: string
  value_raw :: string

datatype ParseError = ParseError string int string string error





definition parser_newError :: "parser \<Rightarrow> error \<Rightarrow> ParseError" where
  "parser_newError p e = ParseError (file_name p) (line p) (ident p) (value_raw p) e"

definition setValue :: "parser \<Rightarrow> string \<Rightarrow> 'st world \<Rightarrow> ParseError option \<times> 'st world" where
  "setValue p val w =
     (case findIndex (\<lambda>v. ident p = Name v) (vars w) of
        None \<Rightarrow> (Some (parser_newError p errUnknownVar), w)
      | Some i \<Rightarrow>
          let v = vars w ! i in
          if set_file v then (Some (parser_newError p errAlreadyDef), w)
          else
            let (err, st') = (if \<not> flagSet v then Val v val (store w) else (None, store w)) in
            case err of
              Some e \<Rightarrow>
                (Some (ParseError (file_name p) (line p) (ident p) (value_raw p) e), w\<lparr>store := st'\<rparr>)
            | None \<Rightarrow>
                (None, w\<lparr>vars := (vars w)[i := v\<lparr>set_file := True\<rparr>], store := st'\<rparr>))"

definition parseLine ::
  "unicode \<Rightarrow> parser \<Rightarrow> string \<Rightarrow> 'st world \<Rightarrow> ParseError option \<times> parser \<times> 'st world" where
  "parseLine U p line0 w =
     (let line1 = eatSpace U line0 in
      if line1 = [] \<or> hd line1 = CHR ''#'' then (None, p, w)
      else
        let p1 = p\<lparr>ident := identRE line1\<rparr>;
            line2 = eatSpace U (drop (length (ident p1)) line1)
        in
        if ident p1 = [] \<or> line2 = [] \<or> hd line2 \<noteq> CHR ''=''
        then (Some (parser_newError p1 errSyntax), p1, w)
        else
          let line3 = eatSpace U (drop 1 line2);
              p2 = p1\<lparr>value_raw := plainRE U line3\<rparr>;
              (p3, unquoted) =
                (if value_raw p2 = [] then
                   (let p3 = p2\<lparr>value_raw := quotedRE U line3\<rparr>
                    in (p3, Unquote (value_raw p3)))
                 else (p2, Some (value_raw p2)))
          in
          case unquoted of
            None \<Rightarrow> (Some (parser_newError p3 errSyntax), p3, w)
          | Some unq \<Rightarrow>
              let line4 = eatSpace U (drop (length (value_raw p3)) line3) in
              if line4 \<noteq> [] \<and> hd line4 \<noteq> CHR ''#''
              then (Some (parser_newError p3 errSyntax), p3, w)
              else (case setValue p3 unq w of (e, w') \<Rightarrow> (e, p3, w')))"

text \<open>
  \<^verbatim>\<open>Parse\<close> reads its lines with \<^verbatim>\<open>bufio.Reader.ReadLine\<close>. The reader is given by
  what its calls return before the end of the input: the triples
  \<^verbatim>\<open>(buf, ispref, err)\<close>, where \<open>err\<close> is an error other than \<^verbatim>\<open>io.EOF\<close> or
  \<^verbatim>\<open>nil\<close>; the call after the last one returns \<^verbatim>\<open>io.EOF\<close>. \<^verbatim>\<open>Parse\<close> returns a
  \<^verbatim>\<open>*ParseError\<close> or the error of the reader.
\<close>

datatype perror = ParseErr ParseError | ReadErr error

type_synonym reader = "(string \<times> bool \<times> error option) list"

fun readLoop ::
  "unicode \<Rightarrow> reader \<Rightarrow> parser \<Rightarrow> 'st world \<Rightarrow> perror option \<times> parser \<times> 'st world" where
  "readLoop U [] p w = (None, p\<lparr>line := line p + 1, ident := [], value_raw := []\<rparr>, w)"
| "readLoop U ((buf, ispref, err) # rd) p w =
     (let p1 = p\<lparr>line := line p + 1, ident := [], value_raw := []\<rparr> in
      case err of
        Some e \<Rightarrow> (Some (ReadErr e), p1, w)
      | None \<Rightarrow>
          if ispref then (Some (ParseErr (parser_newError p1 errLineTooLong)), p1, w)
          else
            (case parseLine U p1 buf w of
               (Some e, p2, w2) \<Rightarrow> (Some (ParseErr e), p2, w2)
             | (None, p2, w2) \<Rightarrow> readLoop U rd p2 w2))"

definition Parse :: "unicode \<Rightarrow> reader \<Rightarrow> string \<Rightarrow> 'st world \<Rightarrow> perror option \<times> 'st world" where
  "Parse U r filename w =
     (let p = \<lparr>file_name = (if filename = [] then ''stdin'' else filename), line = 0,
                ident = [], value_raw = []\<rparr>
      in case readLoop U r p w of
        (Some e, p', w') \<Rightarrow> (Some e, w')
      | (None, p', w') \<Rightarrow>
          (case find (\<lambda>v. Required v \<and> \<not> set_file v) (vars w') of
             Some v \<Rightarrow> (Some (ParseErr (ParseError (file_name p') 0 (Name v) [] errReqNotSet)), w')
           | None \<Rightarrow> (None, w')))"

text \<open>A reader over complete lines that fit the buffer.\<close>

definition lines_reader :: "string list \<Rightarrow> reader" where
  "lines_reader ls = map (\<lambda>l. (l, False, None)) ls"


section \<open>A registry for the examples\<close>

text \<open>
  Each \<^verbatim>\<open>Value\<close> of the example registry appends its tag and the parameter it is
  called with to a log, which is the state: the log is the sequence of the setter
  calls.
\<close>

definition logValue :: "string \<Rightarrow> (string \<times> string) list Value" where
  "logValue tag = FuncValue (\<lambda>p st. (None, st @ [(tag, p)]))"

definition example_vars :: "(string \<times> string) list Var list" where
  "example_vars =
     [\<lparr>Flag = 0x6E, Name = ''number'', Val = logValue ''n'', Kind = NoArg,
        Required = False, set_file = False, flagSet = False\<rparr>,
      \<lparr>Flag = 0x68, Name = ''host'', Val = logValue ''h'', Kind = HasArg,
        Required = False, set_file = False, flagSet = False\<rparr>,
      \<lparr>Flag = 0x6B, Name = ''key'', Val = logValue ''k'', Kind = HasArg,
        Required = True, set_file = False, flagSet = False\<rparr>]"


section \<open>Properties of the command line parser\<close>

lemma findIndex_Some:
  "findIndex P xs = Some i \<Longrightarrow> i < length xs \<and> P (xs ! i)"
  by (induction xs arbitrary: i) (auto split: if_splits)

lemma findIndex_map_cong:
  "map P xs = map Q ys \<Longrightarrow> findIndex P xs = findIndex Q ys"
  by (induction xs arbitrary: ys) auto

lemma map_update_same:
  "(\<And>v. f (g v) = f v) \<Longrightarrow> map f (vs[i := g (vs ! i)]) = map f vs"
  by (induction vs arbitrary: i) (auto simp: nth_Cons split: nat.splits)

lemma findFlag_mark:
  "findFlag flag long kind (vs[i := (vs ! i)\<lparr>flagSet := b\<rparr>]) = findFlag flag long kind vs"
  by (auto simp: findFlag_def intro!: findIndex_map_cong map_update_same)

lemma Index_first:
  "c \<notin> set a \<Longrightarrow> Index (a @ c # b) c = Some (length a)"
  unfolding Index_def by (induction a) auto

lemma Index_none:
  "c \<notin> set a \<Longrightarrow> Index a c = None"
  unfolding Index_def by (induction a) auto

lemma nextArg_gnu:
  "t \<noteq> [] \<Longrightarrow> nextArg (''--'' @ t) gnuLong = (gnuLongFlag, t)"
  by (cases t) (simp_all add: nextArg_def)

lemma nextFlag_gnu_eq:
  "CHR ''='' \<notin> set name \<Longrightarrow> nextFlag (name @ CHR ''='' # val) gnuLongFlag = (0x3D, name, val)"
  by (simp add: nextFlag_def Index_first)

lemma nextFlag_gnu_bare:
  "CHR ''='' \<notin> set name \<Longrightarrow> nextFlag name gnuLongFlag = (0, name, [])"
  by (simp add: nextFlag_def Index_none)

lemma argLoop_flag:
  assumes "Args w = a # rest" and "nextArg a fl = (kind, this)"
    and "kind \<noteq> endArg" and "kind \<noteq> endArgSkip"
  shows "argLoop fl w =
     (case flagLoop kind this (w\<lparr>Args := rest\<rparr>) of
        (Some e, w2) \<Rightarrow> (Some e, w2)
      | (None, w2) \<Rightarrow> argLoop fl w2)"
  using assms by (subst argLoop.simps) simp

lemma flagLoop_last:
  assumes "this \<noteq> []"
  shows "flagLoop kind this w =
     (case doGetOpt_body kind this w of
        Inl r \<Rightarrow> r
      | Inr (this', w') \<Rightarrow> flagLoop kind this' w')"
  using assms by (subst flagLoop.simps) simp

lemma flagLoop_Nil: "flagLoop kind [] w = (None, w)"
  by (subst flagLoop.simps) simp

lemma gnu_eq_HasArg:
  assumes "CHR ''='' \<notin> set name"
    and "findIndex (\<lambda>v. Name v = name) vs = Some i"
    and "Kind (vs ! i) \<noteq> NoArg" and "Kind (vs ! i) \<noteq> LineArg"
  shows "doGetOpt vs gnuLong ((''--'' @ name @ ''='' @ val) # rest) st =
     (case Val (vs ! i) val st of
        (Some err, st') \<Rightarrow>
          (Some (FlagError 0x3D val err), \<lparr>vars = vs, Args = rest, store = st'\<rparr>)
      | (None, st') \<Rightarrow> doGetOpt (vs[i := (vs ! i)\<lparr>flagSet := True\<rparr>]) gnuLong rest st')"
proof -
  let ?w = "\<lparr>vars = vs, Args = (''--'' @ name @ ''='' @ val) # rest, store = st\<rparr>"
  have na: "nextArg (''--'' @ name @ ''='' @ val) gnuLong = (gnuLongFlag, name @ ''='' @ val)"
    using nextArg_gnu [of "name @ ''='' @ val"] by simp
  have body: "doGetOpt_body gnuLongFlag (name @ ''='' @ val) (?w\<lparr>Args := rest\<rparr>) =
      doGetOpt_set i 0x3D val [] rest (?w\<lparr>Args := rest\<rparr>)"
    using assms
    by (simp add: doGetOpt_body_def nextFlag_gnu_eq RuneError_def findFlag_def doGetOpt_switch_def)
  show ?thesis
    unfolding doGetOpt_def
    apply (subst argLoop_flag [OF _ na])
       apply simp
      apply simp
     apply simp
    apply (subst flagLoop_last)
     apply simp
    apply (simp only: body)
    using assms(4)
    apply (simp add: doGetOpt_set_def Let_def newError_def flagLoop_Nil split: prod.splits option.splits)
    done
qed


lemma gnu_eq_NoArg:
  assumes "CHR ''='' \<notin> set name"
    and "findIndex (\<lambda>v. Name v = name) vs = Some i"
    and "Kind (vs ! i) = NoArg"
  shows "doGetOpt vs gnuLong ((''--'' @ name @ CHR ''='' # val) # rest) st =
     (Some (FlagError 0 val errEndJunk), \<lparr>vars = vs, Args = rest, store = st\<rparr>)"
proof -
  let ?w = "\<lparr>vars = vs, Args = (''--'' @ name @ CHR ''='' # val) # rest, store = st\<rparr>"
  have na: "nextArg (''--'' @ name @ CHR ''='' # val) gnuLong = (gnuLongFlag, name @ CHR ''='' # val)"
    using nextArg_gnu [of "name @ CHR ''='' # val"] by simp
  have body: "doGetOpt_body gnuLongFlag (name @ CHR ''='' # val) \<lparr>vars = vs, Args = rest, store = st\<rparr> =
      Inl (Some (FlagError 0 val errEndJunk), \<lparr>vars = vs, Args = rest, store = st\<rparr>)"
    using assms
    by (simp add: doGetOpt_body_def nextFlag_gnu_eq RuneError_def findFlag_def
        doGetOpt_switch_def newError_def)
  show ?thesis
    unfolding doGetOpt_def
    apply (subst argLoop_flag [OF _ na])
       apply simp
      apply simp
     apply simp
    apply (subst flagLoop_last)
     apply simp
    apply (simp add: body)
    done
qed

lemma gnu_bare_HasArg:
  assumes "name \<noteq> []" and "CHR ''='' \<notin> set name"
    and "findIndex (\<lambda>v. Name v = name) vs = Some i"
    and "Kind (vs ! i) \<noteq> NoArg" and "Kind (vs ! i) \<noteq> LineArg"
  shows "doGetOpt vs gnuLong ((''--'' @ name) # a # rest) st =
     (case Val (vs ! i) a st of
        (Some err, st') \<Rightarrow>
          (Some (FlagError 0 a err), \<lparr>vars = vs, Args = rest, store = st'\<rparr>)
      | (None, st') \<Rightarrow> doGetOpt (vs[i := (vs ! i)\<lparr>flagSet := True\<rparr>]) gnuLong rest st')"
proof -
  let ?w = "\<lparr>vars = vs, Args = (''--'' @ name) # a # rest, store = st\<rparr>"
  have na: "nextArg (''--'' @ name) gnuLong = (gnuLongFlag, name)"
    using nextArg_gnu [OF assms(1)] .
  have body: "doGetOpt_body gnuLongFlag name (?w\<lparr>Args := a # rest\<rparr>) =
      doGetOpt_set i 0 a [] rest (?w\<lparr>Args := a # rest\<rparr>)"
    using assms
    by (simp add: doGetOpt_body_def nextFlag_gnu_bare RuneError_def findFlag_def doGetOpt_switch_def)
  show ?thesis
    unfolding doGetOpt_def
    apply (subst argLoop_flag [OF _ na])
       apply simp
      apply simp
     apply simp
    apply (subst flagLoop_last)
     apply (simp add: assms(1))
    apply (simp only: body)
    using assms(5)
    apply (simp add: doGetOpt_set_def Let_def newError_def flagLoop_Nil split: prod.splits option.splits)
    done
qed


lemma byte_n: "byte CHR ''n'' = 110" and byte_h: "byte CHR ''h'' = 104"
  by (simp_all add: byte_def)




lemma argLoop_Nil: "Args w = [] \<Longrightarrow> argLoop fl w = (None, w)"
  by (subst argLoop.simps) simp

lemma argLoop_endArg:
  "Args w = a # rest \<Longrightarrow> fst (nextArg a fl) = endArg \<Longrightarrow> argLoop fl w = (None, w)"
  by (subst argLoop.simps) (simp add: case_prod_unfold)


lemma argLoop_stop:
  "rest = [] \<or> fst (nextArg (hd rest) fl) = endArg \<Longrightarrow>
   argLoop fl \<lparr>vars = vs, Args = rest, store = st\<rparr> = (None, \<lparr>vars = vs, Args = rest, store = st\<rparr>)"
  by (cases rest) (auto simp: argLoop_Nil intro: argLoop_endArg)







lemma doGetOpt_stop:
  "rest = [] \<or> fst (nextArg (hd rest) fl) = endArg \<Longrightarrow>
   doGetOpt vs fl rest st = (None, \<lparr>vars = vs, Args = rest, store = st\<rparr>)"
  unfolding doGetOpt_def by (rule argLoop_stop)









text \<open>
  C9. In the GNU dialect, for a long flag written \<^verbatim>\<open>--name=value\<close> (the name is the
  text before the first \<^verbatim>\<open>=\<close>): a \<^verbatim>\<open>HasArg\<close> \<^verbatim>\<open>Var\<close> has its setter called with
  exactly the text after that \<^verbatim>\<open>=\<close>, and parsing goes on with the next argument; a
  \<^verbatim>\<open>NoArg\<close> \<^verbatim>\<open>Var\<close> makes the parser fail with "junk at end of option". A bare
  \<^verbatim>\<open>--name\<close> on a \<^verbatim>\<open>HasArg\<close> \<^verbatim>\<open>Var\<close> takes the whole next argument as the value.
\<close>

theorem GetOptLong_value:
  assumes "CHR ''='' \<notin> set name" and "findIndex (\<lambda>v. Name v = name) vs = Some i"
  shows
    "(Kind (vs ! i) = HasArg \<longrightarrow>
        GetOptLong vs ((''--'' @ name @ ''='' @ val) # rest) st =
          (case Val (vs ! i) val st of
             (Some err, st') \<Rightarrow>
               (Some (FlagError 0x3D val err), \<lparr>vars = vs, Args = rest, store = st'\<rparr>)
           | (None, st') \<Rightarrow> GetOptLong (vs[i := (vs ! i)\<lparr>flagSet := True\<rparr>]) rest st')) \<and>
     (Kind (vs ! i) = NoArg \<longrightarrow>
        GetOptLong vs ((''--'' @ name @ ''='' @ val) # rest) st =
          (Some (FlagError 0 val errEndJunk), \<lparr>vars = vs, Args = rest, store = st\<rparr>)) \<and>
     (Kind (vs ! i) = HasArg \<and> name \<noteq> [] \<longrightarrow>
        GetOptLong vs ((''--'' @ name) # a # rest) st =
          (case Val (vs ! i) a st of
             (Some err, st') \<Rightarrow>
               (Some (FlagError 0 a err), \<lparr>vars = vs, Args = rest, store = st'\<rparr>)
           | (None, st') \<Rightarrow> GetOptLong (vs[i := (vs ! i)\<lparr>flagSet := True\<rparr>]) rest st'))"
  unfolding GetOptLong_def
  using gnu_eq_HasArg [OF assms, of val rest st] gnu_eq_NoArg [OF assms, of val rest st]
    gnu_bare_HasArg [OF _ assms, of a rest st]
  by (simp add: HasArg_def NoArg_def LineArg_def)

theorem GetOptLong_value_witness:
  "fst (GetOptLong example_vars [''--host=a=b'', ''arg0''] []) = None \<and>
   store (snd (GetOptLong example_vars [''--host=a=b'', ''arg0''] [])) = [(''h'', ''a=b'')] \<and>
   Args (snd (GetOptLong example_vars [''--host=a=b'', ''arg0''] [])) = [''arg0''] \<and>
   GetOptLong example_vars [''--number=1'', ''arg0''] []
     = (Some (FlagError 0 ''1'' errEndJunk), \<lparr>vars = example_vars, Args = [''arg0''], store = []\<rparr>) \<and>
   store (snd (GetOptLong example_vars [''--host'', ''--number'', ''arg0''] [])) = [(''h'', ''--number'')] \<and>
   Args (snd (GetOptLong example_vars [''--host'', ''--number'', ''arg0''] [])) = [''arg0'']"
proof -
  have host: "CHR ''='' \<notin> set ''host''" "findIndex (\<lambda>v. Name v = ''host'') example_vars = Some 1"
    and number: "CHR ''='' \<notin> set ''number''"
      "findIndex (\<lambda>v. Name v = ''number'') example_vars = Some 0"
    by (simp_all add: example_vars_def)
  from GetOptLong_value [OF host, of "''a=b''" "[''arg0'']" "[]" "''--number''"]
  have 1: "GetOptLong example_vars [''--host=a=b'', ''arg0''] [] =
      (None, \<lparr>vars = example_vars[1 := (example_vars ! 1)\<lparr>flagSet := True\<rparr>],
               Args = [''arg0''], store = [(''h'', ''a=b'')]\<rparr>)"
    and 3: "GetOptLong example_vars [''--host'', ''--number'', ''arg0''] [] =
      (None, \<lparr>vars = example_vars[1 := (example_vars ! 1)\<lparr>flagSet := True\<rparr>],
               Args = [''arg0''], store = [(''h'', ''--number'')]\<rparr>)"
    by (simp_all add: example_vars_def GetOptLong_def logValue_def FuncValue_def
        doGetOpt_stop nextArg_def HasArg_def NoArg_def)
  from GetOptLong_value [OF number, of "''1''" "[''arg0'']" "[]"]
  have 2: "GetOptLong example_vars [''--number=1'', ''arg0''] []
     = (Some (FlagError 0 ''1'' errEndJunk), \<lparr>vars = example_vars, Args = [''arg0''], store = []\<rparr>)"
    by (simp add: example_vars_def)
  show ?thesis
    unfolding 1 2 3 by simp
qed

text \<open>
  C10. In the GNU dialect, for a \<^verbatim>\<open>HasArg\<close> \<^verbatim>\<open>Var\<close>, the argument \<^verbatim>\<open>--name=\<close> calls
  the setter with the empty string and leaves the next argument in place: parsing goes
  on with all of \<open>rest\<close>. A bare \<^verbatim>\<open>--name\<close> calls the setter with the next argument
  \<open>a\<close> and goes on after it.
\<close>

theorem GetOptLong_empty_value:
  assumes "CHR ''='' \<notin> set name" and "findIndex (\<lambda>v. Name v = name) vs = Some i"
    and "Kind (vs ! i) = HasArg"
  shows
    "GetOptLong vs ((''--'' @ name @ ''='') # rest) st =
       (case Val (vs ! i) [] st of
          (Some err, st') \<Rightarrow>
            (Some (FlagError 0x3D [] err), \<lparr>vars = vs, Args = rest, store = st'\<rparr>)
        | (None, st') \<Rightarrow> GetOptLong (vs[i := (vs ! i)\<lparr>flagSet := True\<rparr>]) rest st') \<and>
     (name \<noteq> [] \<longrightarrow>
        GetOptLong vs ((''--'' @ name) # a # rest) st =
          (case Val (vs ! i) a st of
             (Some err, st') \<Rightarrow>
               (Some (FlagError 0 a err), \<lparr>vars = vs, Args = rest, store = st'\<rparr>)
           | (None, st') \<Rightarrow> GetOptLong (vs[i := (vs ! i)\<lparr>flagSet := True\<rparr>]) rest st'))"
  unfolding GetOptLong_def
  using gnu_eq_HasArg [OF assms(1,2), of "[]" rest st] gnu_bare_HasArg [OF _ assms(1,2), of a rest st]
    assms(3)
  by (simp add: HasArg_def NoArg_def LineArg_def)

theorem GetOptLong_empty_value_witness:
  "GetOptLong example_vars [''--host='', ''next''] [] =
     (None, \<lparr>vars = example_vars[1 := (example_vars ! 1)\<lparr>flagSet := True\<rparr>],
              Args = [''next''], store = [(''h'', [])]\<rparr>) \<and>
   GetOptLong example_vars [''--host'', ''next''] [] =
     (None, \<lparr>vars = example_vars[1 := (example_vars ! 1)\<lparr>flagSet := True\<rparr>],
              Args = [], store = [(''h'', ''next'')]\<rparr>)"
proof -
  have host: "CHR ''='' \<notin> set ''host''" "findIndex (\<lambda>v. Name v = ''host'') example_vars = Some 1"
    "Kind (example_vars ! 1) = HasArg"
    by (simp_all add: example_vars_def)
  from GetOptLong_empty_value [OF host, of "[''next'']" "[]"]
    GetOptLong_empty_value [OF host, where rest = "[]" and a = "''next''" and st = "[]"]
  show ?thesis
    by (simp add: example_vars_def GetOptLong_def logValue_def FuncValue_def
        doGetOpt_stop nextArg_def)
qed


subsection \<open>Flags given twice\<close>

text \<open>
  \<open>markAll\<close> marks every \<^verbatim>\<open>Var\<close> as set from the command line, as a previous
  flag in the same argument vector does for its \<^verbatim>\<open>Var\<close>.
\<close>

definition markAll :: "'st Var list \<Rightarrow> 'st Var list" where
  "markAll vs = map (\<lambda>v. v\<lparr>flagSet := True\<rparr>) vs"

definition marked :: "'st world \<Rightarrow> 'st world" where
  "marked w = w\<lparr>vars := markAll (vars w)\<rparr>"

lemma findFlag_markAll: "findFlag flag long kind (markAll vs) = findFlag flag long kind vs"
  unfolding findFlag_def markAll_def
  by (auto intro!: findIndex_map_cong)

lemma findFlag_Some: "findFlag flag long kind vs = Some i \<Longrightarrow> i < length vs"
  by (auto simp: findFlag_def dest: findIndex_Some split: if_splits)

lemma markAll_update:
  "i < length vs \<Longrightarrow>
   (markAll vs)[i := (markAll vs ! i)\<lparr>flagSet := True\<rparr>] = markAll (vs[i := (vs ! i)\<lparr>flagSet := True\<rparr>])"
  by (simp add: markAll_def map_update)

lemma doGetOpt_set_marked:
  assumes "i < length (vars w)"
  shows "doGetOpt_set i flag p this args (marked w) =
     map_sum (apsnd marked) (apsnd marked) (doGetOpt_set i flag p this args w)"
  using assms markAll_update [OF assms]
  by (auto simp: doGetOpt_set_def marked_def Let_def markAll_def split: prod.splits option.splits)

lemma doGetOpt_body_marked:
  "doGetOpt_body kind this0 (marked w) =
     map_sum (apsnd marked) (apsnd marked) (doGetOpt_body kind this0 w)"
proof -
  obtain flag long this where nf: "nextFlag this0 kind = (flag, long, this)"
    by (cases "nextFlag this0 kind")
  show ?thesis
  proof (cases "findFlag flag long kind (vars w)")
    case None
    with nf show ?thesis
      by (simp add: doGetOpt_body_def findFlag_markAll marked_def)
  next
    case (Some i)
    then have i: "i < length (vars w)" by (rule findFlag_Some)
    then have k: "Kind (vars (marked w) ! i) = Kind (vars w ! i)"
      by (simp add: marked_def markAll_def)
    have f: "findFlag flag long kind (vars (marked w)) = Some i"
      using Some by (simp add: marked_def findFlag_markAll)
    have a: "Args (marked w) = Args w"
      by (simp add: marked_def)
    show ?thesis
      unfolding doGetOpt_body_def nf prod.case Let_def f Some option.case k a
      using doGetOpt_set_marked [OF i]
      by (auto split: sum.splits)
  qed
qed

lemma flagLoop_marked:
  "flagLoop kind this (marked w) = apsnd marked (flagLoop kind this w)"
proof (induction kind this w rule: flagLoop.induct)
  case (1 kind this w)
  show ?case
  proof (cases "this = []")
    case True
    then show ?thesis by (simp add: flagLoop.simps)
  next
    case False
    show ?thesis
    proof (cases "doGetOpt_body kind this w")
      case (Inl r)
      with False show ?thesis
        by (subst (1 2) flagLoop.simps) (simp add: doGetOpt_body_marked)
    next
      case (Inr y)
      obtain t w1 where y: "y = (t, w1)" by (cases y)
      from "1.IH" [OF False Inr y [symmetric]] Inr y False show ?thesis
        by (subst (1 2) flagLoop.simps) (simp add: doGetOpt_body_marked)
    qed
  qed
qed

lemma argLoop_marked:
  "argLoop fl (marked w) = apsnd marked (argLoop fl w)"
proof (induction fl w rule: argLoop.induct)
  case (1 fl w)
  have a: "Args (marked w) = Args w" by (simp add: marked_def)
  show ?case
  proof (cases "Args w = []")
    case True
    then show ?thesis by (simp add: argLoop.simps a)
  next
    case False
    obtain kind this where na: "nextArg (hd (Args w)) fl = (kind, this)"
      by (cases "nextArg (hd (Args w)) fl")
    have m: "(marked w)\<lparr>Args := tl (Args w)\<rparr> = marked (w\<lparr>Args := tl (Args w)\<rparr>)"
      by (simp add: marked_def)
    obtain e w2 where fl2: "flagLoop kind this (w\<lparr>Args := tl (Args w)\<rparr>) = (e, w2)"
      by (cases "flagLoop kind this (w\<lparr>Args := tl (Args w)\<rparr>)")
    note ne = False
    show ?thesis
    proof (cases "kind = endArg \<or> kind = endArgSkip \<or> e \<noteq> None")
      case True
      with ne na fl2 show ?thesis
        by (subst (1 2) argLoop.simps) (auto simp: a m flagLoop_marked Let_def)
    next
      case False
      note F = this
      then have k: "kind \<noteq> endArg" "kind \<noteq> endArgSkip" and e: "e = None"
        by auto
      have "argLoop fl (marked w2) = apsnd marked (argLoop fl w2)"
        by (rule "1.IH" [OF ne refl na [symmetric] k(1) refl k(2) fl2 [symmetric] e])
      with F ne na fl2 show ?thesis
        by (subst (1 2) argLoop.simps) (auto simp: a m flagLoop_marked Let_def)
    qed
  qed
qed

lemma doGetOptL_body_already:
  assumes "nextFlag this0 kind = (flag, long, this)" and "flag \<noteq> RuneError"
    and "findFlag flag long kind (vars w) = Some i" and "flagSet (vars w ! i)"
  shows "doGetOptL_body kind this0 w = Inl (Some (FlagErrorL flag long [] errAlreadySet), w)"
  using assms by (simp add: doGetOptL_body_def newErrorL_def)


text \<open>
  C4 (amended). In the listing of getopt.go without the "already set" check, the
  parser never looks at the marker \<^verbatim>\<open>flagSet\<close>: run on a registry whose Vars are
  all marked set from the command line already, it returns the same error or success,
  the same \<^verbatim>\<open>Args\<close> and the same variables of the caller as on the registry as it
  is, so a flag given a second time has its setter called again. In the listing with
  the check, a flag whose \<^verbatim>\<open>Var\<close> is already marked makes \<^verbatim>\<open>doGetOpt\<close> return
  "option already set", for that flag or long name, before any setter is called.
\<close>

theorem doGetOpt_flagSet:
  "doGetOpt (markAll vs) fl argv st = apsnd marked (doGetOpt vs fl argv st) \<and>
   (nextFlag this0 kind = (flag, long, this) \<and> flag \<noteq> RuneError \<and>
    findFlag flag long kind (vars w) = Some i \<and> flagSet (vars w ! i) \<longrightarrow>
      doGetOptL_body kind this0 w = Inl (Some (FlagErrorL flag long [] errAlreadySet), w))"
proof -
  have "\<lparr>vars = markAll vs, Args = argv, store = st\<rparr> = marked \<lparr>vars = vs, Args = argv, store = st\<rparr>"
    by (simp add: marked_def)
  then have "doGetOpt (markAll vs) fl argv st = apsnd marked (doGetOpt vs fl argv st)"
    unfolding doGetOpt_def by (simp only: argLoop_marked)
  then show ?thesis
    using doGetOptL_body_already by blast
qed


text \<open>
  The claim as stated fails on the listing with the check: the second \<^verbatim>\<open>-h\<close> is
  rejected, and the caller's variable keeps the first value.
\<close>

theorem doGetOpt_flagSet_counterexample:
  "fst (doGetOptL example_vars short [''-h'', ''a'', ''-h'', ''b''] [])
     = Some (FlagErrorL 0x68 [] [] errAlreadySet) \<and>
   store (snd (doGetOptL example_vars short [''-h'', ''a'', ''-h'', ''b''] [])) = [(''h'', ''a'')]"
  by code_simp

theorem doGetOpt_flagSet_witness:
  "fst (doGetOpt (markAll example_vars) short [''-h'', ''a'', ''-h'', ''b''] []) = None \<and>
   store (snd (doGetOpt (markAll example_vars) short [''-h'', ''a'', ''-h'', ''b''] []))
     = [(''h'', ''a''), (''h'', ''b'')] \<and>
   doGetOptL_body shortFlag ''h'' \<lparr>vars = markAll example_vars, Args = [], store = []\<rparr>
     = Inl (Some (FlagErrorL 0x68 [] [] errAlreadySet),
            \<lparr>vars = markAll example_vars, Args = [], store = []\<rparr>)"
proof -
  have r: "fst (doGetOpt example_vars short [''-h'', ''a'', ''-h'', ''b''] []) = None"
    "store (snd (doGetOpt example_vars short [''-h'', ''a'', ''-h'', ''b''] []))
       = [(''h'', ''a''), (''h'', ''b'')]"
    by code_simp+
  have h: "nextFlag ''h'' shortFlag = (0x68, [], []) \<and> (0x68::int) \<noteq> RuneError \<and>
      findFlag 0x68 [] shortFlag (vars \<lparr>vars = markAll example_vars, Args = [], store = []\<rparr>) = Some 1 \<and>
      flagSet (vars \<lparr>vars = markAll example_vars, Args = [], store = []\<rparr> ! 1)"
    by (simp add: nextFlag_def DecodeRuneInString_def byte_def RuneError_def findFlag_def
        markAll_def example_vars_def)
  from doGetOpt_flagSet [of example_vars short "[''-h'', ''a'', ''-h'', ''b'']" "[]"
      "''h''" shortFlag "0x68" "[]" "[]" "\<lparr>vars = markAll example_vars, Args = [], store = []\<rparr>" 1]
    r h
  show ?thesis
    by (simp add: marked_def)
qed

subsection \<open>Rendering of errors\<close>




section \<open>Properties of the configuration file parser\<close>

subsection \<open>Tables for the examples, and the tokens of a line\<close>

text \<open>
  For the examples, the classes as of Unicode 15.0: \<^verbatim>\<open>White_Space\<close> for
  \<^verbatim>\<open>unicode.IsSpace\<close>, the categories Zs, Zl and Zp for \<^verbatim>\<open>\pZ\<close>, and Cc, Cf, Cs and
  Co for \<^verbatim>\<open>\pC\<close>. The theorems hold for every table.
\<close>

definition unicode15 :: unicode where
  "unicode15 =
     \<lparr>IsSpace = (\<lambda>r. (0x09 \<le> r \<and> r \<le> 0x0D) \<or> r = 0x20 \<or> r = 0x85 \<or> r = 0xA0 \<or> r = 0x1680
                \<or> (0x2000 \<le> r \<and> r \<le> 0x200A) \<or> r = 0x2028 \<or> r = 0x2029 \<or> r = 0x202F
                \<or> r = 0x205F \<or> r = 0x3000),
      pZ = (\<lambda>r. r = 0x20 \<or> r = 0xA0 \<or> r = 0x1680 \<or> (0x2000 \<le> r \<and> r \<le> 0x200A)
                \<or> r = 0x2028 \<or> r = 0x2029 \<or> r = 0x202F \<or> r = 0x205F \<or> r = 0x3000),
      pC = (\<lambda>r. (0 \<le> r \<and> r \<le> 0x1F) \<or> (0x7F \<le> r \<and> r \<le> 0x9F) \<or> r = 0xAD
                \<or> (0x600 \<le> r \<and> r \<le> 0x605) \<or> r = 0x61C \<or> r = 0x6DD \<or> r = 0x70F
                \<or> (0x890 \<le> r \<and> r \<le> 0x891) \<or> r = 0x8E2 \<or> r = 0x180E
                \<or> (0x200B \<le> r \<and> r \<le> 0x200F) \<or> (0x202A \<le> r \<and> r \<le> 0x202E)
                \<or> (0x2060 \<le> r \<and> r \<le> 0x2064) \<or> (0x2066 \<le> r \<and> r \<le> 0x206F)
                \<or> (0xD800 \<le> r \<and> r \<le> 0xF8FF) \<or> r = 0xFEFF
                \<or> (0xFFF9 \<le> r \<and> r \<le> 0xFFFB) \<or> r = 0x110BD \<or> r = 0x110CD
                \<or> (0x13430 \<le> r \<and> r \<le> 0x1343F) \<or> (0x1BCA0 \<le> r \<and> r \<le> 0x1BCA3)
                \<or> (0x1D173 \<le> r \<and> r \<le> 0x1D17A) \<or> r = 0xE0001
                \<or> (0xE0020 \<le> r \<and> r \<le> 0xE007F) \<or> (0xF0000 \<le> r \<and> r \<le> 0xFFFFD)
                \<or> (0x100000 \<le> r \<and> r \<le> 0x10FFFD))\<rparr>"

text \<open>
  What \<^verbatim>\<open>parseLine\<close> reads on a line, before it looks at the registry: nothing (an
  empty line or a comment), a syntax error at the identifier or the equals sign, a
  syntax error at the value or after it, or an assignment: the identifier, the value
  as written and the value unquoted.
\<close>

datatype token = Blank | BadIdent string | BadValue string string | Assign string string string

definition scanLine :: "unicode \<Rightarrow> string \<Rightarrow> token" where
  "scanLine U line0 =
     (let line1 = eatSpace U line0 in
      if line1 = [] \<or> hd line1 = CHR ''#'' then Blank
      else
        let x = identRE line1;
            line2 = eatSpace U (drop (length x) line1)
        in
        if x = [] \<or> line2 = [] \<or> hd line2 \<noteq> CHR ''='' then BadIdent x
        else
          let line3 = eatSpace U (drop 1 line2);
              pv = plainRE U line3;
              raw = (if pv = [] then quotedRE U line3 else pv)
          in
          case (if pv = [] then Unquote raw else Some pv) of
            None \<Rightarrow> BadValue x raw
          | Some unq \<Rightarrow>
              let line4 = eatSpace U (drop (length raw) line3) in
              if line4 \<noteq> [] \<and> hd line4 \<noteq> CHR ''#'' then BadValue x raw
              else Assign x raw unq)"

lemma parseLine_scan:
  "parseLine U p l w =
     (case scanLine U l of
        Blank \<Rightarrow> (None, p, w)
      | BadIdent x \<Rightarrow> (Some (parser_newError (p\<lparr>ident := x\<rparr>) errSyntax), p\<lparr>ident := x\<rparr>, w)
      | BadValue x raw \<Rightarrow>
          (Some (parser_newError (p\<lparr>ident := x, value_raw := raw\<rparr>) errSyntax),
           p\<lparr>ident := x, value_raw := raw\<rparr>, w)
      | Assign x raw unq \<Rightarrow>
          (case setValue (p\<lparr>ident := x, value_raw := raw\<rparr>) unq w of
             (e, w') \<Rightarrow> (e, p\<lparr>ident := x, value_raw := raw\<rparr>, w')))"
  by (simp add: parseLine_def scanLine_def Let_def split: option.splits)


text \<open>\<open>defined x vs\<close>: the first \<^verbatim>\<open>Var\<close> named \<open>x\<close> is marked set from the file.\<close>

definition defined :: "string \<Rightarrow> 'st Var list \<Rightarrow> bool" where
  "defined x vs =
     (case findIndex (\<lambda>v. x = Name v) vs of None \<Rightarrow> False | Some i \<Rightarrow> set_file (vs ! i))"

lemma findIndex_set_file:
  "findIndex (\<lambda>v. x = Name v) (vs[i := (vs ! i)\<lparr>set_file := b\<rparr>]) = findIndex (\<lambda>v. x = Name v) vs"
  by (rule findIndex_map_cong, rule map_update_same, simp)

lemma set_file_update:
  "set_file (vs ! j) \<Longrightarrow> set_file (vs[i := (vs ! i)\<lparr>set_file := True\<rparr>] ! j)"
  by (cases "i < length vs"; cases "i = j"; simp add: list_update_beyond)

lemma defined_update:
  "defined x vs \<Longrightarrow> defined x (vs[i := (vs ! i)\<lparr>set_file := True\<rparr>])"
  by (auto simp: defined_def findIndex_set_file set_file_update split: option.splits)

lemma setValue_defined:
  "defined (ident p) (vars w) \<Longrightarrow> setValue p u w = (Some (parser_newError p errAlreadyDef), w)"
  by (auto simp: defined_def setValue_def split: option.splits)

lemma setValue_ok:
  assumes "setValue p u w = (None, w')"
  shows "defined (ident p) (vars w')"
proof -
  from assms obtain i where i: "findIndex (\<lambda>v. ident p = Name v) (vars w) = Some i"
    by (auto simp: setValue_def split: option.splits)
  then have l: "i < length (vars w)" by (auto dest: findIndex_Some)
  from assms i have "vars w' = (vars w)[i := (vars w ! i)\<lparr>set_file := True\<rparr>]"
    by (auto simp: setValue_def Let_def split: option.splits if_splits prod.splits)
  with i l show ?thesis
    by (simp add: defined_def findIndex_set_file)
qed

lemma setValue_mono:
  assumes "setValue p u w = (e, w')" and "defined x (vars w)"
  shows "defined x (vars w')"
proof -
  from assms(1) have "vars w' = vars w \<or>
      (\<exists>i. vars w' = (vars w)[i := (vars w ! i)\<lparr>set_file := True\<rparr>])"
    by (auto simp: setValue_def Let_def split: option.splits if_splits prod.splits)
  with assms(2) show ?thesis
    by (auto intro: defined_update)
qed

lemma setValue_error:
  "setValue p u w = (Some (ParseError f l i v e), w') \<Longrightarrow> f = file_name p \<and> l = line p"
  by (auto simp: setValue_def Let_def parser_newError_def
      split: option.splits if_splits prod.splits)

lemma parseLine_mono:
  assumes "parseLine U p l w = (e, p', w')" and "defined x (vars w)"
  shows "defined x (vars w')"
  using assms
  by (auto simp: parseLine_scan split: token.splits prod.splits dest: setValue_mono)

lemma parseLine_parser:
  "parseLine U p l w = (e, p', w') \<Longrightarrow> file_name p' = file_name p \<and> line p' = line p"
  by (auto simp: parseLine_scan split: token.splits prod.splits)

lemma parseLine_error:
  "parseLine U p l w = (Some (ParseError f n i v e), p', w') \<Longrightarrow> f = file_name p \<and> n = line p"
  by (auto simp: parseLine_scan parser_newError_def split: token.splits prod.splits
      dest: setValue_error)

lemma parseLine_assigned:
  assumes "parseLine U p l w = (None, p', w')" and "scanLine U l = Assign x r u"
  shows "defined x (vars w')"
  using assms setValue_ok [of "p\<lparr>ident := x, value_raw := r\<rparr>" u w w']
  by (auto simp: parseLine_scan split: prod.splits)

lemma parseLine_defined:
  assumes "scanLine U l = Assign x r u" and "defined x (vars w)"
  shows "parseLine U p l w =
     (Some (ParseError (file_name p) (line p) x r errAlreadyDef), p\<lparr>ident := x, value_raw := r\<rparr>, w)"
  using assms setValue_defined [of "p\<lparr>ident := x, value_raw := r\<rparr>" w u]
  by (simp add: parseLine_scan parser_newError_def)

lemma readLoop_mono:
  "readLoop U rd p w = (e, p', w') \<Longrightarrow> defined x (vars w) \<Longrightarrow> defined x (vars w')"
proof (induction rd arbitrary: p w)
  case Nil
  then show ?case by simp
next
  case (Cons a rd)
  obtain buf ispref err where a: "a = (buf, ispref, err)" by (cases a)
  let ?p1 = "p\<lparr>line := line p + 1, ident := [], value_raw := []\<rparr>"
  obtain e2 p2 w2 where pl: "parseLine U ?p1 buf w = (e2, p2, w2)"
    by (cases "parseLine U ?p1 buf w")
  from parseLine_mono [OF pl Cons.prems(2)] have d: "defined x (vars w2)" .
  from Cons.prems(1) a pl d Cons.IH [of p2 w2] Cons.prems(2) show ?case
    by (auto simp: Let_def split: option.splits if_splits)
qed

lemma readLoop_line:
  "readLoop U rd p w = (None, p', w') \<Longrightarrow>
   line p' = line p + int (length rd) + 1 \<and> file_name p' = file_name p"
proof (induction rd arbitrary: p w)
  case Nil
  then show ?case by auto
next
  case (Cons a rd)
  obtain buf ispref err where a: "a = (buf, ispref, err)" by (cases a)
  let ?p1 = "p\<lparr>line := line p + 1, ident := [], value_raw := []\<rparr>"
  obtain e2 p2 w2 where pl: "parseLine U ?p1 buf w = (e2, p2, w2)"
    by (cases "parseLine U ?p1 buf w")
  from parseLine_parser [OF pl] have pp: "file_name p2 = file_name p" "line p2 = line p + 1"
    by simp_all
  from Cons.prems a pl have "readLoop U rd p2 w2 = (None, p', w')"
    by (auto simp: Let_def split: option.splits if_splits)
  from Cons.IH [OF this] pp show ?case by simp
qed

lemma readLoop_error_line:
  "readLoop U rd p w = (Some (ParseErr (ParseError f n i v e)), p', w') \<Longrightarrow> line p < n"
proof (induction rd arbitrary: p w)
  case Nil
  then show ?case by simp
next
  case (Cons a rd)
  obtain buf ispref err where a: "a = (buf, ispref, err)" by (cases a)
  let ?p1 = "p\<lparr>line := line p + 1, ident := [], value_raw := []\<rparr>"
  obtain e2 p2 w2 where pl: "parseLine U ?p1 buf w = (e2, p2, w2)"
    by (cases "parseLine U ?p1 buf w")
  from parseLine_parser [OF pl] have pp: "line p2 = line p + 1"
    by simp
  show ?case
  proof (cases e2)
    case None
    with Cons.prems a pl have "err = None \<and> \<not> ispref \<longrightarrow>
        readLoop U rd p2 w2 = (Some (ParseErr (ParseError f n i v e)), p', w')"
      by (auto simp: Let_def)
    with Cons.prems a pl None Cons.IH [of p2 w2] pp show ?thesis
      by (auto simp: Let_def parser_newError_def split: option.splits if_splits)
  next
    case (Some pe)
    obtain f1 n1 i1 v1 e1 where pe: "pe = ParseError f1 n1 i1 v1 e1" by (cases pe)
    from parseLine_error [of U ?p1 buf w f1 n1 i1 v1 e1 p2 w2] pl Some pe
    have "n1 = line p + 1" by simp
    with Cons.prems a pl Some pe show ?thesis
      by (auto simp: Let_def parser_newError_def split: option.splits if_splits)
  qed
qed

lemma readLoop_reset:
  "readLoop U rd (p\<lparr>ident := a, value_raw := b\<rparr>) w = readLoop U rd p w"
  by (cases rd) (auto simp: Let_def)

lemma readLoop_append:
  "readLoop U (xs @ ys) p w =
     (case readLoop U xs p w of
        (Some e, r) \<Rightarrow> (Some e, r)
      | (None, p', w') \<Rightarrow> readLoop U ys (p'\<lparr>line := line p' - 1\<rparr>) w')"
proof (induction xs arbitrary: p w)
  case Nil
  have "p\<lparr>line := line p + 1, ident := [], value_raw := [], line := line p + 1 - 1\<rparr>
      = p\<lparr>ident := [], value_raw := []\<rparr>"
    by simp
  then show ?case
    using readLoop_reset [where rd = ys and p = p and a = "[]" and b = "[]" and w = w and U = U] by simp
next
  case (Cons a xs)
  obtain buf ispref err where a: "a = (buf, ispref, err)" by (cases a)
  show ?case
    using Cons.IH
    by (auto simp: a Let_def split: option.splits prod.splits)
qed

lemma readLoop_assigned:
  "readLoop U (lines_reader ls) p w = (None, p', w') \<Longrightarrow> j < length ls \<Longrightarrow>
   scanLine U (ls ! j) = Assign x r u \<Longrightarrow> defined x (vars w')"
proof (induction ls arbitrary: p w j)
  case Nil
  then show ?case by simp
next
  case (Cons l ls)
  let ?p1 = "p\<lparr>line := line p + 1, ident := [], value_raw := []\<rparr>"
  obtain e2 p2 w2 where pl: "parseLine U ?p1 l w = (e2, p2, w2)"
    by (cases "parseLine U ?p1 l w")
  from Cons.prems(1) pl have e2: "e2 = None" and rl: "readLoop U (lines_reader ls) p2 w2 = (None, p', w')"
    by (auto simp: lines_reader_def Let_def split: option.splits)
  show ?case
  proof (cases j)
    case 0
    with Cons.prems(3) pl e2 have "defined x (vars w2)"
      by (auto intro: parseLine_assigned)
    with rl show ?thesis by (rule readLoop_mono)
  next
    case (Suc j')
    with Cons.prems(2,3) Cons.IH [OF rl, of j'] show ?thesis by simp
  qed
qed


text \<open>The parser \<^verbatim>\<open>Parse\<close> starts with.\<close>

definition parser0 :: "string \<Rightarrow> parser" where
  "parser0 filename =
     \<lparr>file_name = (if filename = [] then ''stdin'' else filename), line = 0,
      ident = [], value_raw = []\<rparr>"

lemma Parse_parser0:
  "Parse U rd filename w =
     (case readLoop U rd (parser0 filename) w of
        (Some e, p', w') \<Rightarrow> (Some e, w')
      | (None, p', w') \<Rightarrow>
          (case find (\<lambda>v. Required v \<and> \<not> set_file v) (vars w') of
             Some v \<Rightarrow> (Some (ParseErr (ParseError (file_name p') 0 (Name v) [] errReqNotSet)), w')
           | None \<Rightarrow> (None, w')))"
  by (simp add: Parse_def parser0_def)

subsection \<open>Precedence of the command line\<close>

text \<open>
  C1 (amended). When the file parser reads an assignment to \<open>x\<close> and the first
  \<^verbatim>\<open>Var\<close> named \<open>x\<close> is marked set from the command line: if that \<^verbatim>\<open>Var\<close> is
  not yet marked set from the file, \<^verbatim>\<open>parseLine\<close> returns no error, calls no setter
  (the variables of the caller are as before, whatever the setter is) and marks the
  \<^verbatim>\<open>Var\<close> set from the file, which is what the required check looks at; if the
  \<^verbatim>\<open>Var\<close> is already marked set from the file, by an earlier assignment of the
  stream, \<^verbatim>\<open>parseLine\<close> fails with "already defined" as for any other \<^verbatim>\<open>Var\<close>.
\<close>

theorem parseLine_flagSet:
  assumes "scanLine U l = Assign x raw unq"
    and "findIndex (\<lambda>v. x = Name v) (vars w) = Some i"
    and "flagSet (vars w ! i)"
  shows "parseLine U p l w =
     (if set_file (vars w ! i)
      then (Some (ParseError (file_name p) (line p) x raw errAlreadyDef),
            p\<lparr>ident := x, value_raw := raw\<rparr>, w)
      else (None, p\<lparr>ident := x, value_raw := raw\<rparr>,
            w\<lparr>vars := (vars w)[i := (vars w ! i)\<lparr>set_file := True\<rparr>]\<rparr>)) \<and>
     set_file (vars (snd (snd (parseLine U p l w))) ! i) \<and>
     store (snd (snd (parseLine U p l w))) = store w"
proof -
  from assms(2) have "i < length (vars w)" by (auto dest: findIndex_Some)
  with assms show ?thesis
    by (simp add: parseLine_scan setValue_def parser_newError_def)
qed


text \<open>
  The claim as stated fails on a stream that assigns twice to a \<^verbatim>\<open>Var\<close> set from
  the command line: the second line is an error.
\<close>

theorem parseLine_flagSet_counterexample:
  "flagSet (markAll example_vars ! 1) \<and> Name (markAll example_vars ! 1) = ''host'' \<and>
   fst (Parse unicode15 (lines_reader [''host = a'', ''host = b'']) ''conf''
          \<lparr>vars = markAll example_vars, Args = [], store = []\<rparr>)
     = Some (ParseErr (ParseError ''conf'' 2 ''host'' ''b'' errAlreadyDef))"
  by code_simp


theorem parseLine_flagSet_witness:
  "parseLine unicode15 (parser0 ''conf'') ''host = b''
      \<lparr>vars = markAll example_vars, Args = [], store = [(''h'', ''a'')]\<rparr>
   = (None, (parser0 ''conf'')\<lparr>ident := ''host'', value_raw := ''b''\<rparr>,
      \<lparr>vars = (markAll example_vars)[1 := (markAll example_vars ! 1)\<lparr>set_file := True\<rparr>],
        Args = [], store = [(''h'', ''a'')]\<rparr>)"
proof -
  let ?w = "\<lparr>vars = markAll example_vars, Args = [], store = [(''h'', ''a'')]\<rparr>"
  have s: "scanLine unicode15 ''host = b'' = Assign ''host'' ''b'' ''b''"
    by code_simp
  have i: "findIndex (\<lambda>v. ''host'' = Name v) (vars ?w) = Some 1"
    and f: "flagSet (vars ?w ! 1)" and n: "\<not> set_file (vars ?w ! 1)"
    by (simp_all add: markAll_def example_vars_def)
  from parseLine_flagSet [OF s i f, of "parser0 ''conf''"] n show ?thesis
    by simp
qed


subsection \<open>The required check\<close>

text \<open>
  C2 (amended). \<^verbatim>\<open>Parse\<close> returns the error "required but not set" of line 0
  exactly when the whole stream has been read without an error, and then it carries
  the name of the first \<^verbatim>\<open>Var\<close> that is \<^verbatim>\<open>Required\<close> and not marked set from the
  file; the marker of the command line does not count. An error of the loop, on any
  line, is what \<^verbatim>\<open>Parse\<close> returns instead.
\<close>

theorem Parse_required:
  "(Parse U rd filename w = (Some (ParseErr (ParseError f 0 n v err)), w')) =
     (\<exists>p' u. readLoop U rd (parser0 filename) w = (None, p', w') \<and>
        find (\<lambda>v. Required v \<and> \<not> set_file v) (vars w') = Some u \<and>
        f = file_name (parser0 filename) \<and> n = Name u \<and> v = [] \<and> err = errReqNotSet) \<and>
   (fst (readLoop U rd (parser0 filename) w) = Some e \<longrightarrow>
      fst (Parse U rd filename w) = Some e)"
proof -
  obtain e1 p1 w1 where rl: "readLoop U rd (parser0 filename) w = (e1, p1, w1)"
    by (cases "readLoop U rd (parser0 filename) w")
  show ?thesis
  proof (cases e1)
    case None
    from readLoop_line [of U rd "parser0 filename" w p1 w1] rl None
    have "file_name p1 = file_name (parser0 filename)" by simp
    with rl None show ?thesis
      by (auto simp: Parse_parser0 split: option.splits)
  next
    case (Some pe)
    have "pe \<noteq> ParseErr (ParseError f 0 n v err)"
    proof
      assume "pe = ParseErr (ParseError f 0 n v err)"
      with rl Some readLoop_error_line [of U rd "parser0 filename" w f 0 n v err p1 w1]
      show False by (simp add: parser0_def)
    qed
    with rl Some show ?thesis
      by (auto simp: Parse_parser0)
  qed
qed


text \<open>
  The claim as stated fails on a registry whose first required \<^verbatim>\<open>Var\<close> is marked
  set from the command line: the error names it, and not the first required \<^verbatim>\<open>Var\<close>
  without a marker from either origin.
\<close>

theorem Parse_required_counterexample:
  "(let vs = [(example_vars ! 2)\<lparr>flagSet := True\<rparr>, (example_vars ! 1)\<lparr>Required := True\<rparr>]
    in Required (vs ! 0) \<and> flagSet (vs ! 0) \<and> Name (vs ! 0) = ''key'' \<and>
       Required (vs ! 1) \<and> \<not> flagSet (vs ! 1) \<and> \<not> set_file (vs ! 1) \<and> Name (vs ! 1) = ''host'' \<and>
       fst (Parse unicode15 (lines_reader []) ''conf'' \<lparr>vars = vs, Args = [], store = []\<rparr>)
         = Some (ParseErr (ParseError ''conf'' 0 ''key'' [] errReqNotSet)))"
  by code_simp


theorem Parse_required_witness:
  "fst (Parse unicode15 (lines_reader [''host = a b'', ''key = k'']) ''conf''
          \<lparr>vars = example_vars, Args = [], store = []\<rparr>)
     = Some (ParseErr (ParseError ''conf'' 1 ''host'' ''a'' errSyntax)) \<and>
   fst (Parse unicode15 (lines_reader [''host = a'']) ''conf''
          \<lparr>vars = example_vars, Args = [], store = []\<rparr>)
     = Some (ParseErr (ParseError ''conf'' 0 ''key'' [] errReqNotSet))"
proof -
  let ?w = "\<lparr>vars = example_vars, Args = [], store = []\<rparr> :: (string \<times> string) list world"
  have a: "fst (readLoop unicode15 (lines_reader [''host = a b'', ''key = k'']) (parser0 ''conf'') ?w)
      = Some (ParseErr (ParseError ''conf'' 1 ''host'' ''a'' errSyntax))"
    by code_simp
  have b: "fst (Parse unicode15 (lines_reader [''host = a'']) ''conf'' ?w)
     = Some (ParseErr (ParseError ''conf'' 0 ''key'' [] errReqNotSet))"
    by code_simp
  from Parse_required [where U = unicode15 and rd = "lines_reader [''host = a b'', ''key = k'']"
      and filename = "''conf''" and w = ?w
      and e = "ParseErr (ParseError ''conf'' 1 ''host'' ''a'' errSyntax)"] a b
  show ?thesis by blast
qed


subsection \<open>Assigning twice\<close>

text \<open>
  C3. If the lines \<open>j\<close> and \<open>k\<close> of a stream, \<open>j\<close> before \<open>k\<close>, are assignments
  to the same identifier \<open>x\<close>, and the lines before \<open>k\<close> are read without error
  (the first assignment succeeded), then \<^verbatim>\<open>Parse\<close> fails with "already defined" at
  the line of the second assignment, for the identifier \<open>x\<close>, and the state it
  leaves is the state after the lines before \<open>k\<close>: the effect of the first setter
  call is still there and the failing line has changed nothing. This holds whether or
  not the \<^verbatim>\<open>Var\<close> is marked set from the command line.
\<close>

theorem Parse_twice:
  assumes "j < k" and "k < length ls"
    and "scanLine U (ls ! j) = Assign x r1 u1"
    and "scanLine U (ls ! k) = Assign x r2 u2"
    and "readLoop U (lines_reader (take k ls)) (parser0 filename) w = (None, pk, wk)"
  shows "Parse U (lines_reader ls) filename w =
     (Some (ParseErr (ParseError (file_name (parser0 filename)) (int k + 1) x r2 errAlreadyDef)), wk)"
proof -
  have j: "j < length (take k ls)" and tj: "take k ls ! j = ls ! j"
    using assms(1,2) by simp_all
  from readLoop_assigned [OF assms(5) j] tj assms(3) have d: "defined x (vars wk)"
    by simp
  from readLoop_line [OF assms(5)] assms(2)
  have lp: "line pk = int k + 1" "file_name pk = file_name (parser0 filename)"
    by (simp_all add: parser0_def lines_reader_def)
  have ls: "lines_reader ls =
      lines_reader (take k ls) @ (ls ! k, False, None) # lines_reader (drop (Suc k) ls)"
  proof -
    have "lines_reader ls = lines_reader (take k ls @ ls ! k # drop (Suc k) ls)"
      using assms(2) id_take_nth_drop [of k ls] by simp
    then show ?thesis
      by (simp add: lines_reader_def)
  qed
  let ?p1 = "pk\<lparr>line := line pk - 1, line := line pk - 1 + 1, ident := [], value_raw := []\<rparr>"
  from parseLine_defined [OF assms(4) d, of ?p1] lp
  have "parseLine U ?p1 (ls ! k) wk =
      (Some (ParseError (file_name (parser0 filename)) (int k + 1) x r2 errAlreadyDef),
       ?p1\<lparr>ident := x, value_raw := r2\<rparr>, wk)"
    by simp
  then show ?thesis
    by (simp add: Parse_parser0 ls readLoop_append assms(5) Let_def)
qed



theorem Parse_twice_witness:
  "fst (Parse unicode15 (lines_reader [''host = a'', ''# comment'', ''host = b'']) ''conf''
          \<lparr>vars = example_vars, Args = [], store = []\<rparr>)
     = Some (ParseErr (ParseError ''conf'' 3 ''host'' ''b'' errAlreadyDef)) \<and>
   store (snd (Parse unicode15 (lines_reader [''host = a'', ''# comment'', ''host = b'']) ''conf''
          \<lparr>vars = example_vars, Args = [], store = []\<rparr>))
     = [(''h'', ''a'')]"
proof -
  let ?w = "\<lparr>vars = example_vars, Args = [], store = []\<rparr> :: (string \<times> string) list world"
  let ?ls = "[''host = a'', ''# comment'', ''host = b'']"
  let ?r = "readLoop unicode15 (lines_reader (take 2 ?ls)) (parser0 ''conf'') ?w"
  have s1: "scanLine unicode15 (?ls ! 0) = Assign ''host'' ''a'' ''a''"
    and s2: "scanLine unicode15 (?ls ! 2) = Assign ''host'' ''b'' ''b''"
    by code_simp+
  have e: "fst ?r = None" and st: "store (snd (snd ?r)) = [(''h'', ''a'')]"
    by code_simp+
  then have r: "?r = (None, fst (snd ?r), snd (snd ?r))"
    by (metis prod.collapse)
  from Parse_twice [OF _ _ s1 s2 r] st show ?thesis
    by (simp add: parser0_def)
qed

subsection \<open>Plain and quoted values\<close>

text \<open>
  What the properties of the values assume of the Unicode tables: the entries for ASCII, and
  that every rune \<^verbatim>\<open>unicode.IsSpace\<close> accepts is in \<^verbatim>\<open>\pZ\<close> or \<^verbatim>\<open>\pC\<close> (the
  runes of \<^verbatim>\<open>White_Space\<close> are the separators of \<^verbatim>\<open>Z\<close> and the controls
  U+0009 to U+000D and U+0085).
\<close>

definition unicode_facts :: "unicode \<Rightarrow> bool" where
  "unicode_facts U =
     ((\<forall>r. 0 \<le> r \<and> r < 0x80 \<longrightarrow>
          IsSpace U r = (r = 0x20 \<or> (0x09 \<le> r \<and> r \<le> 0x0D)) \<and>
          pZ U r = (r = 0x20) \<and>
          pC U r = (r < 0x20 \<or> r = 0x7F)) \<and>
      (\<forall>r. IsSpace U r \<longrightarrow> pZ U r \<or> pC U r))"

text \<open>
  The shape of a line \<^verbatim>\<open>x = v # comment\<close>: blanks and tabs between the tokens, an
  identifier of \<^verbatim>\<open>identRE\<close>, a comment after the value or nothing, and a plain value, every
  rune of which \<^verbatim>\<open>plainRE\<close> accepts.
\<close>

definition spaces :: "string \<Rightarrow> bool" where
  "spaces sp = list_all (\<lambda>c. c = CHR '' '' \<or> c = CHR 0x09) sp"

definition is_ident :: "string \<Rightarrow> bool" where
  "is_ident x = (case x of [] \<Rightarrow> False | c # cs \<Rightarrow> ident_alpha c \<and> list_all ident_alnum cs)"

definition comment :: "string \<Rightarrow> bool" where
  "comment c = (c = [] \<or> hd c = CHR ''#'')"

definition plain_value :: "unicode \<Rightarrow> string \<Rightarrow> bool" where
  "plain_value U v = (v \<noteq> [] \<and> list_all (\<lambda>(r, b). ptext U r) (runes v))"

lemma unicode15_facts: "unicode_facts unicode15"
  unfolding unicode_facts_def unicode15_def by auto

lemma runes_Nil: "runes [] = []"
  by (simp add: runes.simps)

lemma runes_ascii:
  "byte c < 0x80 \<Longrightarrow> runes (c # s) = (int (byte c), [c]) # runes s"
  by (subst runes.simps) (simp add: DecodeRuneInString_def)

lemma runes_concat: "concat (map snd (runes s)) = s"
proof (induction s rule: runes.induct)
  case (1 s)
  show ?case
  proof (cases "s = []")
    case True
    then show ?thesis by (simp add: runes_Nil)
  next
    case False
    obtain r n where d: "DecodeRuneInString s = (r, n)"
      by (cases "DecodeRuneInString s")
    from "1.IH" [OF False d [symmetric] refl] have "concat (map snd (runes (drop n s))) = drop n s" .
    with False d show ?thesis
      by (subst runes.simps) simp
  qed
qed

lemma eatSpace_Nil: "eatSpace U [] = []"
  by (simp add: eatSpace_def runes_Nil)

lemma eatSpace_ascii:
  "byte c < 0x80 \<Longrightarrow>
   eatSpace U (c # s) = (if IsSpace U (int (byte c)) then eatSpace U s else c # s)"
  by (simp add: eatSpace_def runes_ascii runes_concat)

lemma byte_simps:
  "byte CHR '' '' = 0x20" "byte CHR 0x09 = 9" "byte CHR ''#'' = 0x23" "byte CHR ''='' = 0x3D"
  "byte CHR 0x22 = 0x22" "byte CHR 0x5C = 0x5C"
  by (simp_all add: byte_def)

lemma eatSpace_spaces:
  assumes "unicode_facts U" and "spaces sp"
  shows "eatSpace U (sp @ s) = eatSpace U s"
  using assms(2)
proof (induction sp)
  case Nil
  then show ?case by simp
next
  case (Cons c sp)
  then have c: "c = CHR '' '' \<or> c = CHR 0x09" and sp: "spaces sp"
    by (simp_all add: spaces_def)
  from c assms(1) have "byte c < 0x80 \<and> IsSpace U (int (byte c))"
    by (auto simp: unicode_facts_def byte_simps)
  with Cons.IH [OF sp] show ?case
    by (simp add: eatSpace_ascii)
qed


lemma ident_alnum_ascii: "ident_alnum c \<Longrightarrow> byte c < 0x80 \<and> 0x2D \<le> byte c"
  by (auto simp: ident_alnum_def ident_alpha_def byte_def)

lemma eatSpace_ident:
  assumes "unicode_facts U" and "is_ident x"
  shows "eatSpace U (x @ s) = x @ s"
proof -
  from assms(2) obtain c cs where x: "x = c # cs" and c: "ident_alpha c"
    by (auto simp: is_ident_def split: list.splits)
  from c have "byte c < 0x80 \<and> 0x2D \<le> byte c"
    by (intro ident_alnum_ascii) (simp add: ident_alnum_def)
  with assms(1) have "byte c < 0x80 \<and> \<not> IsSpace U (int (byte c))"
    by (auto simp: unicode_facts_def)
  with x show ?thesis
    by (simp add: eatSpace_ascii)
qed

lemma identRE_ident:
  assumes "is_ident x" and "s = [] \<or> \<not> ident_alnum (hd s)"
  shows "identRE (x @ s) = x"
proof -
  from assms(1) obtain c cs where x: "x = c # cs" and c: "ident_alpha c"
    and cs: "list_all ident_alnum cs"
    by (auto simp: is_ident_def split: list.splits)
  from cs assms(2) have "takeWhile ident_alnum (cs @ s) = cs"
    by (cases s) (auto simp: list_all_iff takeWhile_append2 intro: takeWhile_eq_all_conv [THEN iffD2])
  with x c show ?thesis
    by (simp add: identRE_def)
qed

lemma is_ident_hd:
  "is_ident x \<Longrightarrow> x \<noteq> [] \<and> hd x \<noteq> CHR ''#''"
  by (auto simp: is_ident_def ident_alpha_def byte_def split: list.splits)


lemma first_Some:
  "first b = Some (sz, lo, hi) \<Longrightarrow> (sz = 2 \<or> sz = 3 \<or> sz = 4) \<and> 0x80 \<le> lo"
  by (auto simp: first_def split: if_splits)

lemma DecodeRuneInString_le:
  assumes "s \<noteq> []"
  shows "snd (DecodeRuneInString s) \<le> length s"
proof (cases "first (byte (s ! 0))")
  case None
  with assms show ?thesis
    by (cases s) (auto simp: DecodeRuneInString_def Let_def)
next
  case (Some t)
  obtain sz lo hi where t: "t = (sz, lo, hi)" by (cases t)
  from first_Some [of "byte (s ! 0)" sz lo hi] Some t
  have "sz = 2 \<or> sz = 3 \<or> sz = 4" by simp
  with assms Some t show ?thesis
    by (cases s) (auto simp: DecodeRuneInString_def Let_def Suc_le_eq)
qed

lemma DecodeRuneInString_append:
  assumes v: "v \<noteq> []" and t: "tail = [] \<or> byte (hd tail) < 0x80"
  shows "DecodeRuneInString (v @ tail) = DecodeRuneInString v"
proof (cases "byte (hd v) < 0x80 \<or> first (byte (hd v)) = None")
  case True
  with v show ?thesis
    by (cases v) (auto simp: DecodeRuneInString_def Let_def)
next
  case False
  note nf = False
  then obtain sz lo hi where f: "first (byte (hd v)) = Some (sz, lo, hi)"
    by auto
  from first_Some [OF f] have sz: "sz = 2 \<or> sz = 3 \<or> sz = 4" and lo: "0x80 \<le> lo"
    by simp_all
  have h0: "(v @ tail) ! 0 = v ! 0" "hd v = v ! 0"
    using v by (simp_all add: nth_append hd_conv_nth)
  show ?thesis
  proof (cases "sz \<le> length v")
    case True
    with sz have "(v @ tail) ! 1 = v ! 1" "sz \<ge> 3 \<longrightarrow> (v @ tail) ! 2 = v ! 2"
      "sz \<ge> 4 \<longrightarrow> (v @ tail) ! 3 = v ! 3"
      by (auto simp: nth_append)
    with True v f h0 sz nf show ?thesis
      by (auto simp: DecodeRuneInString_def Let_def)
  next
    case False
    with v f h0 nf have dv: "DecodeRuneInString v = (RuneError, 1)"
      by (auto simp: DecodeRuneInString_def Let_def)
    show ?thesis
    proof (cases "length (v @ tail) < sz")
      case True
      with v f h0 dv nf show ?thesis
        by (auto simp: DecodeRuneInString_def Let_def)
    next
      case long: False
      with False have tl: "tail \<noteq> []" by auto
      with t have a: "byte (tail ! 0) < 0x80"
        by (simp add: hd_conv_nth)
      then have nc: "\<not> cont (byte (tail ! 0))" and nl: "byte (tail ! 0) < lo"
        using lo by (simp_all add: cont_def)
      from v have lv: "1 \<le> length v" by (cases v) simp_all
      from False sz lv have "length v = 1 \<or> length v = 2 \<or> length v = 3" by auto
      then show ?thesis
      proof (elim disjE)
        assume l: "length v = 1"
        then have "(v @ tail) ! 1 = tail ! 0" by (simp add: nth_append)
        with v f h0 dv long nl nf show ?thesis
          by (auto simp: DecodeRuneInString_def Let_def)
      next
        assume l: "length v = 2"
        then have "(v @ tail) ! 1 = v ! 1" "(v @ tail) ! 2 = tail ! 0"
          by (simp_all add: nth_append)
        with v f h0 dv long nc False l nf sz show ?thesis
          by (auto simp: DecodeRuneInString_def Let_def)
      next
        assume l: "length v = 3"
        then have "(v @ tail) ! 1 = v ! 1" "(v @ tail) ! 2 = v ! 2" "(v @ tail) ! 3 = tail ! 0"
          by (simp_all add: nth_append)
        with v f h0 dv long nc False l nf sz show ?thesis
          by (auto simp: DecodeRuneInString_def Let_def)
      qed
    qed
  qed
qed

lemma runes_append:
  assumes "tail = [] \<or> byte (hd tail) < 0x80"
  shows "runes (v @ tail) = runes v @ runes tail"
proof (induction v rule: runes.induct)
  case (1 v)
  show ?case
  proof (cases "v = []")
    case True
    then show ?thesis by (simp add: runes_Nil)
  next
    case False
    obtain r n where d: "DecodeRuneInString v = (r, n)"
      by (cases "DecodeRuneInString v")
    from DecodeRuneInString_size [OF False] d have n1: "1 \<le> n" by simp
    have nl: "n \<le> length v"
      using DecodeRuneInString_le [OF False] d by simp
    from DecodeRuneInString_append [OF False assms] d
    have d': "DecodeRuneInString (v @ tail) = (r, n)" by simp
    from "1.IH" [OF False d [symmetric] refl]
    have ih: "runes (drop n v @ tail) = runes (drop n v) @ runes tail" .
    have "runes (v @ tail) = (r, take n (v @ tail)) # runes (drop n (v @ tail))"
      using False d' by (subst runes.simps) simp
    also have "\<dots> = (r, take n v) # runes (drop n v @ tail)"
      using nl by simp
    also have "\<dots> = ((r, take n v) # runes (drop n v)) @ runes tail"
      using ih by simp
    also have "(r, take n v) # runes (drop n v) = runes v"
      using False d by (subst (2) runes.simps) simp
    finally show ?thesis .
  qed
qed


text \<open>The part of \<open>scanLine\<close> after the equals sign and the blanks that follow it.\<close>

definition scanValue :: "unicode \<Rightarrow> string \<Rightarrow> string \<Rightarrow> token" where
  "scanValue U x line3 =
     (let pv = plainRE U line3;
          raw = (if pv = [] then quotedRE U line3 else pv)
      in
      case (if pv = [] then Unquote raw else Some pv) of
        None \<Rightarrow> BadValue x raw
      | Some unq \<Rightarrow>
          let line4 = eatSpace U (drop (length raw) line3) in
          if line4 \<noteq> [] \<and> hd line4 \<noteq> CHR ''#'' then BadValue x raw
          else Assign x raw unq)"

lemma spaces_hd: "spaces sp \<Longrightarrow> sp \<noteq> [] \<Longrightarrow> hd sp = CHR '' '' \<or> hd sp = CHR 0x09"
  by (cases sp) (auto simp: spaces_def)

lemma not_alnum: "\<not> ident_alnum CHR '' ''" "\<not> ident_alnum CHR 0x09" "\<not> ident_alnum CHR ''=''"
  by (simp_all add: ident_alnum_def ident_alpha_def byte_def)

lemma scanLine_prefix:
  assumes U: "unicode_facts U" and x: "is_ident x"
    and sp: "spaces sp0" "spaces sp1" "spaces sp2"
  shows "scanLine U (sp0 @ x @ sp1 @ CHR ''='' # sp2 @ rest) = scanValue U x (eatSpace U rest)"
proof -
  let ?l1 = "x @ sp1 @ CHR ''='' # sp2 @ rest"
  have l1: "eatSpace U (sp0 @ ?l1) = ?l1"
    using eatSpace_spaces [OF U sp(1)] eatSpace_ident [OF U x] by simp
  have h1: "?l1 \<noteq> []" "hd ?l1 \<noteq> CHR ''#''"
    using is_ident_hd [OF x] by simp_all
  have "sp1 @ CHR ''='' # sp2 @ rest = [] \<or> \<not> ident_alnum (hd (sp1 @ CHR ''='' # sp2 @ rest))"
    using spaces_hd [OF sp(2)] by (cases sp1) (auto simp: not_alnum)
  from identRE_ident [OF x this] have id: "identRE ?l1 = x" .
  have eq: "eatSpace U (CHR ''='' # sp2 @ rest) = CHR ''='' # sp2 @ rest"
    using U by (simp add: eatSpace_ascii byte_simps unicode_facts_def)
  have l2: "eatSpace U (drop (length x) ?l1) = CHR ''='' # sp2 @ rest"
    using eatSpace_spaces [OF U sp(2), of "CHR ''='' # sp2 @ rest"] eq by simp
  have l3: "eatSpace U (drop 1 (CHR ''='' # sp2 @ rest)) = eatSpace U rest"
    using eatSpace_spaces [OF U sp(3)] by simp
  from is_ident_hd [OF x] have xn: "x \<noteq> []" by simp
  show ?thesis
    unfolding scanLine_def scanValue_def l1 Let_def id l2 l3
    using h1 xn by simp
qed

lemma takeWhile_runes:
  assumes "list_all P rs" and "rs' = [] \<or> \<not> P (hd rs')"
  shows "takeWhile P (rs @ rs') = rs"
  using assms by (cases rs') (auto simp: list_all_iff takeWhile_append2 intro: takeWhile_eq_all_conv [THEN iffD2])


lemma plainRE_plain:
  assumes "plain_value U v"
    and "tail = [] \<or> (byte (hd tail) < 0x80 \<and> \<not> ptext U (int (byte (hd tail))))"
  shows "plainRE U (v @ tail) = v"
proof -
  from assms(2) have a: "tail = [] \<or> byte (hd tail) < 0x80" by auto
  have "runes tail = [] \<or> \<not> (\<lambda>(r, b). ptext U r) (hd (runes tail))"
    using assms(2) by (cases tail) (auto simp: runes_Nil runes_ascii)
  with assms(1) have "takeWhile (\<lambda>(r, b). ptext U r) (runes v @ runes tail) = runes v"
    by (intro takeWhile_runes) (simp_all add: plain_value_def)
  then show ?thesis
    by (simp add: plainRE_def runes_append [OF a] runes_concat)
qed

lemma eatSpace_plain:
  assumes U: "unicode_facts U" and v: "plain_value U v"
    and t: "tail = [] \<or> byte (hd tail) < 0x80"
  shows "eatSpace U (v @ tail) = v @ tail"
proof -
  from v have "runes v \<noteq> []"
    by (subst runes.simps) (auto simp: plain_value_def split: prod.splits)
  then obtain r b rs where rv: "runes v = (r, b) # rs"
    by (cases "runes v") auto
  with v have "ptext U r" by (simp add: plain_value_def)
  with U have "\<not> IsSpace U r" by (auto simp: unicode_facts_def ptext_def)
  with rv have "dropWhile (\<lambda>(r, b). IsSpace U r) (runes v @ runes tail) = runes v @ runes tail"
    by simp
  then have "eatSpace U (v @ tail) = concat (map snd (runes (v @ tail)))"
    by (simp add: eatSpace_def runes_append [OF t])
  then show ?thesis by (simp add: runes_concat)
qed

lemma eatSpace_comment:
  assumes U: "unicode_facts U" and sp: "spaces sp" and c: "comment cmt"
  shows "eatSpace U (sp @ cmt) = cmt"
proof (cases cmt)
  case Nil
  with eatSpace_spaces [OF U sp, of "[]"] show ?thesis by (simp add: eatSpace_Nil)
next
  case (Cons a t)
  with c have "a = CHR ''#''" by (simp add: comment_def)
  with Cons U have "eatSpace U cmt = cmt"
    by (simp add: eatSpace_ascii byte_simps unicode_facts_def)
  with eatSpace_spaces [OF U sp, of cmt] show ?thesis by simp
qed

lemma tail_hd:
  assumes U: "unicode_facts U" and sp: "spaces sp" and c: "comment cmt"
  shows "sp @ cmt = [] \<or> (byte (hd (sp @ cmt)) < 0x80 \<and> \<not> ptext U (int (byte (hd (sp @ cmt)))))"
proof (cases "sp @ cmt = []")
  case True
  then show ?thesis by simp
next
  case False
  then have "hd (sp @ cmt) = CHR '' '' \<or> hd (sp @ cmt) = CHR 0x09 \<or> hd (sp @ cmt) = CHR ''#''"
    using spaces_hd [OF sp] c by (cases sp) (auto simp: comment_def)
  with U show ?thesis
    by (auto simp: byte_simps unicode_facts_def ptext_def)
qed

lemma scanLine_plain:
  assumes U: "unicode_facts U" and x: "is_ident x"
    and sp: "spaces sp0" "spaces sp1" "spaces sp2" "spaces sp3"
    and c: "comment cmt" and v: "plain_value U v"
  shows "scanLine U (sp0 @ x @ sp1 @ CHR ''='' # sp2 @ v @ sp3 @ cmt) = Assign x v v"
proof -
  note t = tail_hd [OF U sp(4) c]
  then have t': "sp3 @ cmt = [] \<or> byte (hd (sp3 @ cmt)) < 0x80" by auto
  have e: "eatSpace U (v @ sp3 @ cmt) = v @ sp3 @ cmt"
    by (rule eatSpace_plain [OF U v t'])
  have p: "plainRE U (v @ sp3 @ cmt) = v"
    by (rule plainRE_plain [OF v t])
  from v have vn: "v \<noteq> []" by (simp add: plain_value_def)
  have l4: "eatSpace U (drop (length v) (v @ sp3 @ cmt)) = cmt"
    using eatSpace_comment [OF U sp(4) c] by simp
  show ?thesis
    unfolding scanLine_prefix [OF U x sp(1,2,3)] e scanValue_def Let_def p
    using vn c by (auto simp: comment_def eatSpace_comment [OF U sp(4) c])
qed
































lemma setValue_calls:
  assumes "findIndex (\<lambda>v. ident p = Name v) (vars w) = Some i"
    and "\<not> set_file (vars w ! i)" and "\<not> flagSet (vars w ! i)"
  shows "store (snd (setValue p u w)) = snd (Val (vars w ! i) u (store w))"
  using assms by (simp add: setValue_def Let_def split: prod.splits option.splits)

lemma parseLine_Assign:
  assumes "scanLine U l = Assign x raw unq"
  shows "parseLine U p l w =
       (case setValue (p\<lparr>ident := x, value_raw := raw\<rparr>) unq w of
          (e, w') \<Rightarrow> (e, p\<lparr>ident := x, value_raw := raw\<rparr>, w')) \<and>
     (\<forall>i. findIndex (\<lambda>u. x = Name u) (vars w) = Some i \<and>
          \<not> set_file (vars w ! i) \<and> \<not> flagSet (vars w ! i) \<longrightarrow>
          store (snd (snd (parseLine U p l w))) = snd (Val (vars w ! i) unq (store w)))"
  using assms setValue_calls [of "p\<lparr>ident := x, value_raw := raw\<rparr>" w _ unq]
  by (auto simp: parseLine_scan split: prod.splits)

text \<open>
  C8. On a line \<^verbatim>\<open>x = v\<close>, with blanks and tabs around the tokens and possibly a
  comment at the end, where \<open>x\<close> is an identifier and \<open>v\<close> is a plain value (a
  non-empty string all of whose runes are outside \<^verbatim>\<open>\pZ\<close> and \<^verbatim>\<open>\pC\<close> and none of
  the five characters), \<^verbatim>\<open>parseLine\<close> calls \<^verbatim>\<open>setValue\<close> with \<open>v\<close> itself, and
  the setter of a settable \<^verbatim>\<open>Var\<close> named \<open>x\<close> is called with \<open>v\<close>.
\<close>

theorem parseLine_plain:
  assumes "unicode_facts U" and "is_ident x"
    and "spaces sp0" and "spaces sp1" and "spaces sp2" and "spaces sp3"
    and "comment cmt" and "plain_value U v"
  shows "parseLine U p (sp0 @ x @ sp1 @ ''='' @ sp2 @ v @ sp3 @ cmt) w =
       (case setValue (p\<lparr>ident := x, value_raw := v\<rparr>) v w of
          (e, w') \<Rightarrow> (e, p\<lparr>ident := x, value_raw := v\<rparr>, w')) \<and>
     (\<forall>i. findIndex (\<lambda>u. x = Name u) (vars w) = Some i \<and>
          \<not> set_file (vars w ! i) \<and> \<not> flagSet (vars w ! i) \<longrightarrow>
          store (snd (snd (parseLine U p (sp0 @ x @ sp1 @ ''='' @ sp2 @ v @ sp3 @ cmt) w)))
            = snd (Val (vars w ! i) v (store w)))"
proof -
  have "scanLine U (sp0 @ x @ sp1 @ ''='' @ sp2 @ v @ sp3 @ cmt) = Assign x v v"
    using scanLine_plain [OF assms] by simp
  then show ?thesis by (rule parseLine_Assign)
qed

theorem parseLine_plain_witness:
  "store (snd (snd (parseLine unicode15 (parser0 ''conf'')
      (''  host = [::1]:23   # Look ma, no quotes!'')
      \<lparr>vars = example_vars, Args = [], store = []\<rparr>))) = [(''h'', ''[::1]:23'')]"
proof -
  let ?w = "\<lparr>vars = example_vars, Args = [], store = []\<rparr> :: (string \<times> string) list world"
  have x: "is_ident ''host''"
    by (simp add: is_ident_def ident_alpha_def ident_alnum_def byte_def)
  have sp: "spaces ''  ''" "spaces '' ''" "spaces ''   ''"
    by (simp_all add: spaces_def)
  have c: "comment ''# Look ma, no quotes!''"
    by (simp add: comment_def)
  have v: "plain_value unicode15 ''[::1]:23''"
    by code_simp
  have i: "findIndex (\<lambda>u. ''host'' = Name u) (vars ?w) = Some 1 \<and>
      \<not> set_file (vars ?w ! 1) \<and> \<not> flagSet (vars ?w ! 1)"
    and s: "snd (Val (vars ?w ! 1) ''[::1]:23'' (store ?w)) = [(''h'', ''[::1]:23'')]"
    by (simp_all add: example_vars_def logValue_def FuncValue_def)
  from parseLine_plain [OF unicode15_facts x sp(1) sp(2) sp(2) sp(3) c v,
      of "parser0 ''conf''" ?w, THEN conjunct2, rule_format, OF i] s
  show ?thesis by simp
qed



end
